theory Spec2Isabelle
  imports Main "HOL-Library.Word" "HOL-Library.Sublist"
begin

section \<open>The file store bot: registry of files and share links\<close>

text \<open>
  A shallow embedding of \<^verbatim>\<open>fileshaare.py\<close>. The PostgreSQL tables become lists of
  records in insertion order, the handlers become functions that take the store and
  the per-user session data and return both together with the reply. Everything the
  handlers get from outside is an argument: the clock (\<open>now\<close>, in seconds), the sixteen
  random bytes behind each generated code, the outcome of the calls to the chat
  service that the handlers guard with \<^verbatim>\<open>try\<close>, and the configured administrators.

  Python integers and the integer columns are \<open>int\<close>; the range checks of the
  \<^verbatim>\<open>INTEGER\<close> and \<^verbatim>\<open>BIGINT\<close> columns are not modelled. The store is taken to be
  reachable and the replies to be delivered: only the failures that the handlers
  themselves distinguish are branches of the model (a violated \<^verbatim>\<open>UNIQUE\<close>
  constraint, a failed forward, copy or delete of a message, malformed callback data).
\<close>

subsection \<open>Codes\<close>

type_synonym byte = "8 word"

text \<open>The alphabet of \<^verbatim>\<open>base64.urlsafe_b64encode\<close>.\<close>

definition b64_alphabet :: string where
  "b64_alphabet = ''ABCDEFGHIJKLMNOPQRSTUVWXYZabcdefghijklmnopqrstuvwxyz0123456789-_''"

definition b64_char :: "nat \<Rightarrow> char" where
  "b64_char n = b64_alphabet ! n"

text \<open>
  Three bytes give four characters of six bits each; one or two remaining bytes are
  padded with \<open>=\<close> to four characters.
\<close>

fun urlsafe_b64encode :: "byte list \<Rightarrow> string" where
  "urlsafe_b64encode (a # b # c # rest) =
     b64_char (unat a div 4)
     # b64_char ((unat a mod 4) * 16 + unat b div 16)
     # b64_char ((unat b mod 16) * 4 + unat c div 64)
     # b64_char (unat c mod 64)
     # urlsafe_b64encode rest"
| "urlsafe_b64encode [a, b] =
     [b64_char (unat a div 4),
      b64_char ((unat a mod 4) * 16 + unat b div 16),
      b64_char ((unat b mod 16) * 4),
      CHR ''='']"
| "urlsafe_b64encode [a] =
     [b64_char (unat a div 4), b64_char ((unat a mod 4) * 16), CHR ''='', CHR ''='']"
| "urlsafe_b64encode [] = []"

text \<open>\<^verbatim>\<open>s.rstrip(c)\<close> for a single character.\<close>

definition rstrip :: "char \<Rightarrow> string \<Rightarrow> string" where
  "rstrip c s = rev (dropWhile (\<lambda>x. x = c) (rev s))"

unbundle bit_operations_syntax

text \<open>
  \<^verbatim>\<open>uuid.uuid4().bytes\<close>: sixteen random bytes in which the version nibble (the high
  half of byte 6) is set to 4 and the two variant bits (the top of byte 8) to \<open>10\<close>.
\<close>

definition uuid4_bytes :: "byte list \<Rightarrow> byte list" where
  "uuid4_bytes rnd = rnd[6 := (rnd ! 6 AND 0x0F) OR 0x40, 8 := (rnd ! 8 AND 0x3F) OR 0x80]"

text \<open>
  \<^verbatim>\<open>base64.urlsafe_b64encode(uuid.uuid4().bytes).decode('utf-8').rstrip('=')[:18]\<close>,
  as a function of the random bytes that \<^verbatim>\<open>uuid4\<close> draws.
\<close>

definition gen_code :: "byte list \<Rightarrow> string" where
  "gen_code rnd = take 18 (rstrip (CHR ''='') (urlsafe_b64encode (uuid4_bytes rnd)))"

subsection \<open>The tables\<close>

text \<open>
  One record per table of \<^verbatim>\<open>init_db\<close>, one field per column. A nullable column that
  the program fills with \<^verbatim>\<open>None\<close> or reads as such is an \<open>option\<close>. The store holds
  the rows of each table in the order of a sequential scan and, for each \<^verbatim>\<open>SERIAL\<close>
  key the program inserts into, the last value its sequence has handed out.
\<close>

record user_row =
  u_id :: int
  u_user_id :: int
  u_username :: "string option"
  u_first_name :: "string option"
  u_joined_at :: int
  u_is_active :: bool

record group_row =
  g_id :: int
  g_name :: string
  g_owner_id :: int
  g_created_at :: int
  g_total_files :: int
  g_total_size :: int

record file_row =
  f_id :: int
  f_group_id :: int
  f_serial :: int
  f_unique_id :: string
  f_file_name :: "string option"
  f_file_type :: string
  f_file_size :: int
  f_storage_message_id :: int
  f_uploader_id :: int
  f_created_at :: int

record link_row =
  l_id :: int
  l_code :: string
  l_file_id :: int
  l_group_id :: int
  l_owner_id :: int
  l_expires_at :: "int option"
  l_max_downloads :: "int option"
  l_downloads :: int
  l_created_at :: int
  l_active :: bool

record stats_row =
  s_id :: int
  s_user_id :: int
  s_uploads :: int
  s_downloads :: int
  s_last_active :: "int option"

record db =
  users :: "user_row list"
  groups :: "group_row list"
  files :: "file_row list"
  links :: "link_row list"
  stats :: "stats_row list"
  users_seq :: int
  files_seq :: int
  links_seq :: int
  stats_seq :: int

text \<open>The store after \<^verbatim>\<open>init_db\<close> on an empty database.\<close>

definition init_db :: db where
  "init_db = \<lparr>users = [], groups = [], files = [], links = [], stats = [],
     users_seq = 0, files_seq = 0, links_seq = 0, stats_seq = 0\<rparr>"

subsection \<open>What the handlers receive\<close>

record tg_user =
  tg_id :: int
  tg_username :: "string option"
  tg_first_name :: "string option"

text \<open>A document, a photo size or a video of a message.\<close>

record tg_file =
  file_unique_id :: string
  file_name :: "string option"
  file_size :: "int option"

record message =
  m_document :: "tg_file option"
  m_photo :: "tg_file list"
  m_video :: "tg_file option"

text \<open>
  The entries of \<^verbatim>\<open>ctx.user_data\<close> that the modelled handlers read or write. The
  handlers read the flags with \<^verbatim>\<open>get\<close>, so an absent flag and a false one are the
  same to them.
\<close>

record user_data =
  upload_group_id :: "int option"
  is_bulk_upload :: bool
  awaiting_search :: bool
  awaiting_new_group :: bool

text \<open>The outcome of \<^verbatim>\<open>update.message.forward\<close> to the storage chat.\<close>

datatype forward_result = Forwarded int | FloodWait | ForwardFailed

text \<open>
  A text message, stripped: one of the nine labels of the main keyboard, or any other
  text.
\<close>

datatype button =
  BUpload | BBulkUpload | BMyLinks | BMyFiles | BMyGroups | BSearch | BSettings | BHelp | BAdmin

datatype text_msg = Button button | Text string

text \<open>
  The callback data, split at the colons and with its numbers read: \<open>Malformed\<close> is
  data whose parts are missing or are not integers, which raises in the handler;
  \<open>OtherAction\<close> is data with an action the handler does not know.
\<close>

datatype callback =
    Pick int
  | NewGroup
  | Open int
  | Download int int
  | Share int int
  | ShareC int int int
  | Delete int int
  | Home
  | OtherAction
  | Malformed

text \<open>
  The message a handler leaves the user with. The texts and keyboards are not
  modelled beyond the values they show.
\<close>

datatype reply =
    Hello "string option" bool
  | SelectGroupFirst
  | UnsupportedType
  | Saved "string option" int int
  | RateLimited
  | UploadFailed
  | Selected "string option"
  | SendGroupName
  | GroupNotFound
  | GroupShown int
  | FileNotFound
  | FileSent int "string option"
  | CouldNotSend
  | ChooseExpiry int int
  | CouldNotCreateLink
  | LinkUrl string
  | NotPermitted
  | Deleted
  | HomeShown bool
  | UnknownAction
  | ErrorProcessing
  | NoResults
  | Results "(int \<times> int \<times> string option) list"
  | ChooseGroup
  | NoLinks
  | LinksShown
  | NoFiles
  | FilesShown
  | NoGroups
  | GroupsShown
  | SendSearchText
  | HelpShown bool
  | AdminPanel
  | UseButtons bool

text \<open>The exceptions that the modelled statements raise.\<close>

datatype error = UniqueViolation | OverflowError

subsection \<open>Utilities and user registration\<close>

text \<open>\<^verbatim>\<open>ADMIN_IDS\<close> comes from the environment: it is a parameter here.\<close>

definition is_admin :: "int list \<Rightarrow> int \<Rightarrow> bool" where
  "is_admin admin_ids uid = (uid \<in> set admin_ids)"

text \<open>
  The three upserts of the \<^verbatim>\<open>stats\<close> table differ only in the counter they add to:
  a new row starts with the given counts, an existing row has them added, and
  \<^verbatim>\<open>last_active\<close> is set in both cases. The sequence of the key advances even when
  the row exists.
\<close>

definition upsert_stats :: "int \<Rightarrow> int \<Rightarrow> int \<Rightarrow> int \<Rightarrow> db \<Rightarrow> db" where
  "upsert_stats now uid ups downs d =
     d\<lparr>stats_seq := stats_seq d + 1,
       stats :=
         (if \<exists>r \<in> set (stats d). s_user_id r = uid
          then map (\<lambda>r. if s_user_id r = uid
                         then r\<lparr>s_uploads := s_uploads r + ups,
                                s_downloads := s_downloads r + downs,
                                s_last_active := Some now\<rparr>
                         else r) (stats d)
          else stats d @ [\<lparr>s_id = stats_seq d + 1, s_user_id = uid, s_uploads = ups,
                            s_downloads = downs, s_last_active = Some now\<rparr>])\<rparr>"

definition ensure_user :: "int \<Rightarrow> tg_user \<Rightarrow> db \<Rightarrow> db" where
  "ensure_user now user d =
     upsert_stats now (tg_id user) 0 0
       (d\<lparr>users_seq := users_seq d + 1,
          users :=
            (if \<exists>r \<in> set (users d). u_user_id r = tg_id user then users d
             else users d @ [\<lparr>u_id = users_seq d + 1, u_user_id = tg_id user,
                               u_username = tg_username user,
                               u_first_name = tg_first_name user,
                               u_joined_at = now, u_is_active = True\<rparr>])\<rparr>)"

text \<open>Python's \<^verbatim>\<open>a or b\<close> on optional strings: \<open>a\<close> unless it is \<^verbatim>\<open>None\<close> or empty.\<close>

definition str_or :: "string option \<Rightarrow> string option \<Rightarrow> string option" where
  "str_or a b = (case a of None \<Rightarrow> b | Some s \<Rightarrow> if s = [] then b else a)"

definition cmd_start :: "int list \<Rightarrow> int \<Rightarrow> tg_user \<Rightarrow> string list \<Rightarrow> db \<Rightarrow> db \<times> reply" where
  "cmd_start admin_ids now user args d =
     (ensure_user now user d,
      Hello (str_or (tg_first_name user) (tg_username user)) (is_admin admin_ids (tg_id user)))"

subsection \<open>The expiry worker\<close>

text \<open>
  One pass of the loop of \<^verbatim>\<open>expiry_worker\<close>: the rows selected at \<open>now\<close>, then one
  update per selected row, by its key. The pass returns the codes it logs.
\<close>

text \<open>\<^verbatim>\<open>active = TRUE AND expires_at IS NOT NULL AND expires_at <= NOW()\<close>\<close>

definition is_expired :: "int \<Rightarrow> link_row \<Rightarrow> bool" where
  "is_expired now l =
     (l_active l \<and> (case l_expires_at l of None \<Rightarrow> False | Some e \<Rightarrow> e \<le> now))"

definition expired_rows :: "int \<Rightarrow> db \<Rightarrow> link_row list" where
  "expired_rows now d = filter (is_expired now) (links d)"

definition deactivate :: "int \<Rightarrow> db \<Rightarrow> db" where
  "deactivate i d =
     d\<lparr>links := map (\<lambda>l. if l_id l = i then l\<lparr>l_active := False\<rparr> else l) (links d)\<rparr>"

definition expiry_cycle :: "int \<Rightarrow> db \<Rightarrow> db \<times> string list" where
  "expiry_cycle now d =
     (let rows = expired_rows now d
      in (fold (\<lambda>r. deactivate (l_id r)) rows d, map l_code rows))"

subsection \<open>Uploads\<close>

text \<open>\<^verbatim>\<open>MAX\<close> over a column: \<open>None\<close> for no rows.\<close>

fun sql_max :: "int list \<Rightarrow> int option" where
  "sql_max [] = None"
| "sql_max (x # xs) = (case sql_max xs of None \<Rightarrow> Some x | Some m \<Rightarrow> Some (max x m))"

definition files_of_group :: "int \<Rightarrow> db \<Rightarrow> file_row list" where
  "files_of_group gid d = filter (\<lambda>f. f_group_id f = gid) (files d)"

text \<open>\<^verbatim>\<open>SELECT COALESCE(MAX(serial),0)+1 FROM files WHERE group_id = $1\<close>\<close>

definition next_serial :: "int \<Rightarrow> db \<Rightarrow> int" where
  "next_serial gid d =
     (case sql_max (map f_serial (files_of_group gid d)) of None \<Rightarrow> 0 | Some m \<Rightarrow> m) + 1"

text \<open>
  The \<^verbatim>\<open>INSERT INTO files\<close>: the key's sequence advances, and the row is refused when
  its \<^verbatim>\<open>unique_id\<close> is already there.
\<close>

definition insert_file ::
  "int \<Rightarrow> int \<Rightarrow> int \<Rightarrow> string \<Rightarrow> string option \<Rightarrow> int \<Rightarrow> int \<Rightarrow> int \<Rightarrow> db \<Rightarrow> error + db" where
  "insert_file now gid serial code fname fsize sid uid d =
     (if \<exists>f \<in> set (files d). f_unique_id f = code
      then Inl UniqueViolation
      else Inr (d\<lparr>files_seq := files_seq d + 1,
                  files := files d @
                    [\<lparr>f_id = files_seq d + 1, f_group_id = gid, f_serial = serial,
                      f_unique_id = code, f_file_name = fname, f_file_type = ''file'',
                      f_file_size = fsize, f_storage_message_id = sid, f_uploader_id = uid,
                      f_created_at = now\<rparr>]\<rparr>))"

text \<open>
  \<^verbatim>\<open>UPDATE groups SET total_files = total_files + 1, total_size = total_size + $1
  WHERE id = $2\<close>
\<close>

definition add_to_group :: "int \<Rightarrow> int \<Rightarrow> db \<Rightarrow> db" where
  "add_to_group gid fsize d =
     d\<lparr>groups := map (\<lambda>g. if g_id g = gid
                            then g\<lparr>g_total_files := g_total_files g + 1,
                                   g_total_size := g_total_size g + fsize\<rparr>
                            else g) (groups d)\<rparr>"

text \<open>\<^verbatim>\<open>fobj.file_size or 0\<close>\<close>

definition size_or_0 :: "int option \<Rightarrow> int" where
  "size_or_0 s = (case s of None \<Rightarrow> 0 | Some n \<Rightarrow> n)"

text \<open>
  The file of a message with its name and size: the document, else the last photo
  size, else the video; \<open>None\<close> for any other message (audio and voice included).
\<close>

definition pick_media :: "message \<Rightarrow> (string option \<times> int) option" where
  "pick_media msg =
     (case m_document msg of
        Some fobj \<Rightarrow> Some (file_name fobj, size_or_0 (file_size fobj))
      | None \<Rightarrow>
          if m_photo msg \<noteq> []
          then Some (Some (''photo_'' @ file_unique_id (last (m_photo msg)) @ ''.jpg''),
                     size_or_0 (file_size (last (m_photo msg))))
          else (case m_video msg of
                  Some fobj \<Rightarrow>
                    Some (str_or (file_name fobj) (Some (''video_'' @ file_unique_id fobj)),
                          size_or_0 (file_size fobj))
                | None \<Rightarrow> None))"

text \<open>The \<^verbatim>\<open>finally\<close> of \<^verbatim>\<open>handle_upload\<close>.\<close>

definition forget_group :: "user_data \<Rightarrow> user_data" where
  "forget_group ud = (if is_bulk_upload ud then ud else ud\<lparr>upload_group_id := None\<rparr>)"

text \<open>
  \<^verbatim>\<open>handle_upload\<close>. The statements on the store are not in a transaction; the only
  one of them that the modelled store can refuse is the insertion of the file, before
  which nothing has been written.
\<close>

definition handle_upload ::
  "int \<Rightarrow> tg_user \<Rightarrow> message \<Rightarrow> forward_result \<Rightarrow> byte list \<Rightarrow> db \<times> user_data
     \<Rightarrow> db \<times> user_data \<times> reply" where
  "handle_upload now user msg fwd rnd s =
     (let d = ensure_user now user (fst s); ud = snd s
      in case upload_group_id ud of
           None \<Rightarrow> (d, ud, SelectGroupFirst)
         | Some gid \<Rightarrow>
             if gid = 0 then (d, ud, SelectGroupFirst)
             else (case pick_media msg of
                     None \<Rightarrow> (d, ud, UnsupportedType)
                   | Some (fname, fsize) \<Rightarrow>
                       (case fwd of
                          FloodWait \<Rightarrow> (d, forget_group ud, RateLimited)
                        | ForwardFailed \<Rightarrow> (d, forget_group ud, UploadFailed)
                        | Forwarded sid \<Rightarrow>
                            (let serial = next_serial gid d
                             in case insert_file now gid serial (gen_code rnd) fname fsize sid
                                       (tg_id user) d of
                                  Inl e \<Rightarrow>
                                    (d\<lparr>files_seq := files_seq d + 1\<rparr>, forget_group ud,
                                     UploadFailed)
                                | Inr d1 \<Rightarrow>
                                    (upsert_stats now (tg_id user) 1 0
                                       (add_to_group gid fsize d1),
                                     forget_group ud, Saved fname gid serial)))))"

subsection \<open>Share links\<close>

text \<open>
  \<^verbatim>\<open>datetime.utcnow() + timedelta(seconds=expires_seconds)\<close>, with the times counted
  in seconds from the start of 1970. The \<^verbatim>\<open>timedelta\<close> raises \<^verbatim>\<open>OverflowError\<close> when
  it spans more than 999999999 days either way, and the sum raises it when it leaves
  the years 1 to 9999 of \<^verbatim>\<open>datetime\<close>, which begin at second \<open>-62135596800\<close> and end
  with second \<open>253402300799\<close>.
\<close>

definition expiry_overflows :: "int \<Rightarrow> int \<Rightarrow> bool" where
  "expiry_overflows now secs =
     (999999999 < \<bar>secs div 86400\<bar> \<or> now + secs < - 62135596800 \<or> 253402300799 < now + secs)"

text \<open>
  The expiry time of a new link: \<^verbatim>\<open>if expires_seconds\<close> holds for every number but
  zero.
\<close>

definition expires_at_of :: "int \<Rightarrow> int option \<Rightarrow> error + int option" where
  "expires_at_of now expires_seconds =
     (case expires_seconds of
        None \<Rightarrow> Inr None
      | Some secs \<Rightarrow>
          if secs = 0 then Inr None
          else if expiry_overflows now secs then Inl OverflowError
          else Inr (Some (now + secs)))"

text \<open>
  \<^verbatim>\<open>create_share_link\<close>. The code and the expiry time are computed first, so that an
  overflow raises before the store is read. \<^verbatim>\<open>if not file_id\<close> holds for a missing
  row and for the key 0. The insertion is refused when a link has the code already;
  the sequence of the key has advanced by then. The result is the error raised, or
  what the function returns.
\<close>

definition create_share_link ::
  "int \<Rightarrow> byte list \<Rightarrow> int \<Rightarrow> int \<Rightarrow> int \<Rightarrow> int option \<Rightarrow> int option \<Rightarrow> db
     \<Rightarrow> db \<times> (error + string option)" where
  "create_share_link now rnd group_id serial owner_id expires_seconds max_downloads d =
     (let code = gen_code rnd
      in case expires_at_of now expires_seconds of
           Inl e \<Rightarrow> (d, Inl e)
         | Inr expires_at \<Rightarrow>
             (case find (\<lambda>f. f_group_id f = group_id \<and> f_serial f = serial) (files d) of
                None \<Rightarrow> (d, Inr None)
              | Some f \<Rightarrow>
                  if f_id f = 0 then (d, Inr None)
                  else if \<exists>l \<in> set (links d). l_code l = code
                  then (d\<lparr>links_seq := links_seq d + 1\<rparr>, Inl UniqueViolation)
                  else (d\<lparr>links_seq := links_seq d + 1,
                          links := links d @
                            [\<lparr>l_id = links_seq d + 1, l_code = code, l_file_id = f_id f,
                              l_group_id = group_id, l_owner_id = owner_id,
                              l_expires_at = expires_at, l_max_downloads = max_downloads,
                              l_downloads = 0, l_created_at = now, l_active = True\<rparr>]\<rparr>,
                        Inr (Some code))))"

subsection \<open>Callbacks\<close>

text \<open>
  The branches of \<^verbatim>\<open>callback_handler\<close>. \<open>copy_ok\<close> and \<open>delete_ok\<close> say whether the
  chat service copies, respectively deletes, the stored message. The branches that
  only read the store are modelled by the kind of their reply.
\<close>

definition group_owner :: "int \<Rightarrow> db \<Rightarrow> int option" where
  "group_owner gid d = map_option g_owner_id (find (\<lambda>g. g_id g = gid) (groups d))"

definition delete_file :: "int \<Rightarrow> int \<Rightarrow> db \<Rightarrow> db" where
  "delete_file fid gid d =
     d\<lparr>files := filter (\<lambda>f. f_id f \<noteq> fid) (files d),
       groups := map (\<lambda>g. if g_id g = gid then g\<lparr>g_total_files := g_total_files g - 1\<rparr>
                            else g) (groups d)\<rparr>"

definition callback_handler ::
  "int list \<Rightarrow> int \<Rightarrow> int \<Rightarrow> callback \<Rightarrow> byte list \<Rightarrow> bool \<Rightarrow> bool \<Rightarrow> db \<times> user_data
     \<Rightarrow> db \<times> user_data \<times> reply" where
  "callback_handler admin_ids now uid cb rnd copy_ok delete_ok s =
     (let d = fst s; ud = snd s
      in case cb of
           Pick gid \<Rightarrow>
             (d, ud\<lparr>upload_group_id := Some gid\<rparr>,
              Selected (map_option g_name (find (\<lambda>g. g_id g = gid) (groups d))))
         | NewGroup \<Rightarrow> (d, ud\<lparr>awaiting_new_group := True\<rparr>, SendGroupName)
         | Open gid \<Rightarrow>
             (d, ud, if find (\<lambda>g. g_id g = gid) (groups d) = None then GroupNotFound
                     else GroupShown gid)
         | Download gid serial \<Rightarrow>
             (case find (\<lambda>f. f_group_id f = gid \<and> f_serial f = serial) (files d) of
                None \<Rightarrow> (d, ud, FileNotFound)
              | Some f \<Rightarrow>
                  if copy_ok
                  then (upsert_stats now uid 0 1 d, ud,
                        FileSent (f_storage_message_id f) (f_file_name f))
                  else (d, ud, CouldNotSend))
         | Share gid serial \<Rightarrow> (d, ud, ChooseExpiry gid serial)
         | ShareC gid serial seconds \<Rightarrow>
             (case create_share_link now rnd gid serial uid
                     (if seconds > 0 then Some seconds else None) None d of
                (d1, Inl e) \<Rightarrow> (d1, ud, ErrorProcessing)
              | (d1, Inr None) \<Rightarrow> (d1, ud, CouldNotCreateLink)
              | (d1, Inr (Some code)) \<Rightarrow>
                  (d1, ud, if code = [] then CouldNotCreateLink else LinkUrl code))
         | Delete gid serial \<Rightarrow>
             (case find (\<lambda>f. f_group_id f = gid \<and> f_serial f = serial) (files d) of
                None \<Rightarrow> (d, ud, FileNotFound)
              | Some f \<Rightarrow>
                  if Some uid \<noteq> group_owner gid d \<and> \<not> is_admin admin_ids uid
                  then (d, ud, NotPermitted)
                  else (delete_file (f_id f) gid d, ud, Deleted))
         | Home \<Rightarrow> (d, ud, HomeShown (is_admin admin_ids uid))
         | OtherAction \<Rightarrow> (d, ud, UnknownAction)
         | Malformed \<Rightarrow> (d, ud, ErrorProcessing))"

subsection \<open>Search\<close>

text \<open>
  PostgreSQL's \<^verbatim>\<open>LIKE\<close> with the default escape character: \<open>%\<close> stands for any run
  of characters, \<open>_\<close> for any one character, and a backslash makes the character
  after it stand for itself. PostgreSQL rejects a pattern that ends in a lone
  backslash; the pattern that \<^verbatim>\<open>do_search\<close> builds ends in \<open>%\<close>, so that this case
  (here: no match) is never reached from it.
\<close>

fun like :: "string \<Rightarrow> string \<Rightarrow> bool" where
  "like [] s = (s = [])"
| "like (p # ps) s =
     (if p = CHR 0x5C then
        (case ps of
           [] \<Rightarrow> False
         | c # ps' \<Rightarrow> (case s of [] \<Rightarrow> False | x # s' \<Rightarrow> x = c \<and> like ps' s'))
      else if p = CHR ''%'' then
        (like ps s \<or> (case s of [] \<Rightarrow> False | x # s' \<Rightarrow> like (p # ps) s'))
      else if p = CHR ''_'' then
        (case s of [] \<Rightarrow> False | x # s' \<Rightarrow> like ps s')
      else
        (case s of [] \<Rightarrow> False | x # s' \<Rightarrow> x = p \<and> like ps s'))"

text \<open>
  \<^verbatim>\<open>ILIKE\<close> compares the lower-cased pattern with the lower-cased text. Strings are
  lists of 8-bit characters here, and only the letters \<open>A\<close>--\<open>Z\<close> have a lower case.
\<close>

definition lower_char :: "char \<Rightarrow> char" where
  "lower_char c =
     (case map_of (zip ''ABCDEFGHIJKLMNOPQRSTUVWXYZ'' ''abcdefghijklmnopqrstuvwxyz'') c of
        None \<Rightarrow> c
      | Some l \<Rightarrow> l)"

definition ilike :: "string \<Rightarrow> string \<Rightarrow> bool" where
  "ilike s p = like (map lower_char p) (map lower_char s)"

text \<open>
  The query of \<^verbatim>\<open>do_search\<close>,
  \<^verbatim>\<open>SELECT group_id,serial,file_name FROM files WHERE file_name ILIKE $1 LIMIT 25\<close>
  with \<^verbatim>\<open>$1 = f"%{q}%"\<close>: a row without a name never matches, and the rows come in
  the order of the scan, since the query asks for no other.
\<close>

definition search_rows :: "string \<Rightarrow> db \<Rightarrow> file_row list" where
  "search_rows q d =
     take 25
       (filter (\<lambda>f. case f_file_name f of
                       None \<Rightarrow> False
                     | Some n \<Rightarrow> ilike n (CHR ''%'' # q @ [CHR ''%'']))
          (files d))"

definition do_search :: "string \<Rightarrow> db \<Rightarrow> reply" where
  "do_search q d =
     (let rows = search_rows q d
      in if rows = [] then NoResults
         else Results (map (\<lambda>f. (f_group_id f, f_serial f, f_file_name f)) rows))"

subsection \<open>Text messages\<close>

text \<open>
  What a handler ends with: a reply, or an exception that no handler catches. The
  names \<^verbatim>\<open>settings_ui\<close> and \<^verbatim>\<open>create_group_from_text\<close> are called and nowhere
  defined, so that the calls raise.
\<close>

datatype outcome = Reply reply | Swept "string list" | Raised

definition choose_group_ui :: "int \<Rightarrow> tg_user \<Rightarrow> bool \<Rightarrow> db \<times> user_data \<Rightarrow> db \<times> user_data \<times> outcome" where
  "choose_group_ui now user bulk s =
     (ensure_user now user (fst s), (snd s)\<lparr>is_bulk_upload := bulk\<rparr>, Reply ChooseGroup)"

definition show_my_links :: "tg_user \<Rightarrow> db \<Rightarrow> reply" where
  "show_my_links user d =
     (if filter (\<lambda>l. l_owner_id l = tg_id user) (links d) = [] then NoLinks else LinksShown)"

definition manage_files_ui :: "tg_user \<Rightarrow> db \<Rightarrow> reply" where
  "manage_files_ui user d =
     (if filter (\<lambda>f. f_uploader_id f = tg_id user) (files d) = [] then NoFiles else FilesShown)"

definition list_groups_ui :: "tg_user \<Rightarrow> db \<Rightarrow> reply" where
  "list_groups_ui user d =
     (if filter (\<lambda>g. g_owner_id g = tg_id user) (groups d) = [] then NoGroups else GroupsShown)"

text \<open>
  The label of the administrators' button, as the bytes of the source file: a text
  that a user who is no administrator sends like any other text.
\<close>

definition admin_label :: string where
  "admin_label =
     [CHR 0xEF, CHR 0xA3, CHR 0xBF, CHR 0xC3, CHR 0xBC, CHR 0xC3, CHR 0xAB, CHR 0xC3, CHR 0xAB]
     @ '' Admin''"

text \<open>
  The end of \<^verbatim>\<open>message_router\<close>, for a text that no button claims. A text message
  carries no file, so the branch for uploads is not taken.
\<close>

definition route_text :: "int list \<Rightarrow> tg_user \<Rightarrow> string \<Rightarrow> db \<times> user_data \<Rightarrow> db \<times> user_data \<times> outcome" where
  "route_text admin_ids user txt s =
     (let d = fst s; ud = snd s
      in if awaiting_search ud \<and> txt \<noteq> []
         then (d, ud\<lparr>awaiting_search := False\<rparr>, Reply (do_search txt d))
         else if awaiting_new_group ud \<and> txt \<noteq> []
         then (d, ud\<lparr>awaiting_new_group := False\<rparr>, Raised)
         else (d, ud, Reply (UseButtons (is_admin admin_ids (tg_id user)))))"

definition message_router ::
  "int list \<Rightarrow> int \<Rightarrow> tg_user \<Rightarrow> text_msg \<Rightarrow> db \<times> user_data \<Rightarrow> db \<times> user_data \<times> outcome" where
  "message_router admin_ids now user txt s =
     (let d = fst s; ud = snd s
      in case txt of
           Button BUpload \<Rightarrow> choose_group_ui now user False s
         | Button BBulkUpload \<Rightarrow> choose_group_ui now user True s
         | Button BMyLinks \<Rightarrow> (d, ud, Reply (show_my_links user d))
         | Button BMyFiles \<Rightarrow> (d, ud, Reply (manage_files_ui user d))
         | Button BMyGroups \<Rightarrow> (d, ud, Reply (list_groups_ui user d))
         | Button BSearch \<Rightarrow> (d, ud\<lparr>awaiting_search := True\<rparr>, Reply SendSearchText)
         | Button BSettings \<Rightarrow> (d, ud, Raised)
         | Button BHelp \<Rightarrow> (d, ud, Reply (HelpShown (is_admin admin_ids (tg_id user))))
         | Button BAdmin \<Rightarrow>
             if is_admin admin_ids (tg_id user) then (d, ud, Reply AdminPanel)
             else route_text admin_ids user admin_label s
         | Text t \<Rightarrow> route_text admin_ids user t s)"

subsection \<open>Runs\<close>

text \<open>
  The updates the program reacts to, each with the time at which it is handled, and
  the passes of the expiry worker. A run handles them one after another.
\<close>

datatype event =
    EvStart tg_user "string list"
  | EvText tg_user text_msg
  | EvUpload tg_user message forward_result "byte list"
  | EvCallback int callback "byte list" bool bool
  | EvReap

record state =
  st_db :: db
  st_user_data :: "int \<Rightarrow> user_data"

definition step :: "int list \<Rightarrow> int \<Rightarrow> event \<Rightarrow> state \<Rightarrow> state \<times> outcome" where
  "step admin_ids now ev s =
     (case ev of
        EvStart user args \<Rightarrow>
          (case cmd_start admin_ids now user args (st_db s) of
             (d, r) \<Rightarrow> (s\<lparr>st_db := d\<rparr>, Reply r))
      | EvText user txt \<Rightarrow>
          (case message_router admin_ids now user txt (st_db s, st_user_data s (tg_id user)) of
             (d, ud, out) \<Rightarrow>
               (\<lparr>st_db = d, st_user_data = (st_user_data s)(tg_id user := ud)\<rparr>, out))
      | EvUpload user msg fwd rnd \<Rightarrow>
          (case handle_upload now user msg fwd rnd (st_db s, st_user_data s (tg_id user)) of
             (d, ud, r) \<Rightarrow>
               (\<lparr>st_db = d, st_user_data = (st_user_data s)(tg_id user := ud)\<rparr>, Reply r))
      | EvCallback uid cb rnd copy_ok delete_ok \<Rightarrow>
          (case callback_handler admin_ids now uid cb rnd copy_ok delete_ok
                  (st_db s, st_user_data s uid) of
             (d, ud, r) \<Rightarrow> (\<lparr>st_db = d, st_user_data = (st_user_data s)(uid := ud)\<rparr>, Reply r))
      | EvReap \<Rightarrow>
          (case expiry_cycle now (st_db s) of (d, codes) \<Rightarrow> (s\<lparr>st_db := d\<rparr>, Swept codes)))"

fun run :: "int list \<Rightarrow> (int \<times> event) list \<Rightarrow> state \<Rightarrow> state \<times> outcome list" where
  "run admin_ids [] s = (s, [])"
| "run admin_ids ((now, ev) # evs) s =
     (case step admin_ids now ev s of
        (s1, out) \<Rightarrow> (case run admin_ids evs s1 of (s2, outs) \<Rightarrow> (s2, out # outs)))"

text \<open>The state of a freshly started program: empty tables, no session data.\<close>

definition init_state :: state where
  "init_state =
     \<lparr>st_db = init_db,
      st_user_data = (\<lambda>_. \<lparr>upload_group_id = None, is_bulk_upload = False,
                             awaiting_search = False, awaiting_new_group = False\<rparr>)\<rparr>"

subsection \<open>Observations and example data\<close>

text \<open>The uploads counter of a user: \<open>None\<close> while the user has no row of statistics.\<close>

definition uploads_of :: "int \<Rightarrow> db \<Rightarrow> int option" where
  "uploads_of uid d = map_option s_uploads (find (\<lambda>r. s_user_id r = uid) (stats d))"

text \<open>
  A store with the group \<open>Docs\<close> of user 101 and one file of 5000 bytes in it, and
  session data with nothing selected.
\<close>

definition docs_db :: db where
  "docs_db = init_db
     \<lparr>groups := [\<lparr>g_id = 1, g_name = ''Docs'', g_owner_id = 101, g_created_at = 0,
                   g_total_files = 1, g_total_size = 5000\<rparr>],
      files := [\<lparr>f_id = 1, f_group_id = 1, f_serial = 1, f_unique_id = ''AAECAwQFRgeICQoLDA'',
                  f_file_name = Some ''report.pdf'', f_file_type = ''file'', f_file_size = 5000,
                  f_storage_message_id = 77, f_uploader_id = 101, f_created_at = 0\<rparr>],
      files_seq := 1\<rparr>"

definition no_data :: user_data where
  "no_data = \<lparr>upload_group_id = None, is_bulk_upload = False, awaiting_search = False,
               awaiting_new_group = False\<rparr>"

text \<open>Sixteen bytes for a code, a second user, and the store with two links to the file.\<close>

definition rnd0 :: "byte list" where
  "rnd0 = [0, 1, 2, 3, 4, 5, 6, 7, 8, 9, 10, 11, 12, 13, 14, 255]"

definition bob :: tg_user where
  "bob = \<lparr>tg_id = 202, tg_username = Some ''bob'', tg_first_name = Some ''Bob''\<rparr>"

definition share_db :: db where
  "share_db = docs_db
     \<lparr>links := [\<lparr>l_id = 1, l_code = ''AAECAwQFRgeICQoLDA'', l_file_id = 1, l_group_id = 1,
                  l_owner_id = 101, l_expires_at = Some 99, l_max_downloads = Some 1,
                  l_downloads = 0, l_created_at = 0, l_active = True\<rparr>,
                \<lparr>l_id = 2, l_code = ''BBECAwQFRgeICQoLDA'', l_file_id = 1, l_group_id = 1,
                  l_owner_id = 101, l_expires_at = None, l_max_downloads = Some 1,
                  l_downloads = 0, l_created_at = 0, l_active = True\<rparr>],
      links_seq := 2\<rparr>"

text \<open>The search texts without a character that \<^verbatim>\<open>LIKE\<close> reads as a wildcard or an escape.\<close>

definition literal :: "string \<Rightarrow> bool" where
  "literal q = (\<forall>c \<in> set q. c \<noteq> CHR ''%'' \<and> c \<noteq> CHR ''_'' \<and> c \<noteq> CHR 0x5C)"

text \<open>A store with two files of two groups, the older one first.\<close>

definition search_db :: db where
  "search_db = init_db
     \<lparr>files := [\<lparr>f_id = 1, f_group_id = 1, f_serial = 1, f_unique_id = ''AAECAwQFRgeICQoLDA'',
                  f_file_name = Some ''report.pdf'', f_file_type = ''file'', f_file_size = 5000,
                  f_storage_message_id = 77, f_uploader_id = 101, f_created_at = 10\<rparr>,
                \<lparr>f_id = 2, f_group_id = 2, f_serial = 1, f_unique_id = ''BBECAwQFRgeICQoLDA'',
                  f_file_name = Some ''Report2.pdf'', f_file_type = ''file'', f_file_size = 10,
                  f_storage_message_id = 78, f_uploader_id = 202, f_created_at = 20\<rparr>],
      files_seq := 2\<rparr>"



text \<open>
  A session in bulk mode with group 5 selected, and a run of it: two uploads that go
  through, one that the chat service refuses, and a start command in between.
\<close>

definition rnd1 :: "byte list" where
  "rnd1 = [16, 1, 2, 3, 4, 5, 6, 7, 8, 9, 10, 11, 12, 13, 14, 255]"

definition rnd2 :: "byte list" where
  "rnd2 = [32, 1, 2, 3, 4, 5, 6, 7, 8, 9, 10, 11, 12, 13, 14, 255]"

definition alice :: tg_user where
  "alice = \<lparr>tg_id = 101, tg_username = Some ''alice'', tg_first_name = None\<rparr>"

definition notes_msg :: message where
  "notes_msg = \<lparr>m_document = Some \<lparr>file_unique_id = ''u1'', file_name = Some ''notes.txt'',
                                     file_size = Some 120\<rparr>,
                 m_photo = [], m_video = None\<rparr>"

definition bulk_data :: "int \<Rightarrow> user_data" where
  "bulk_data gid = \<lparr>upload_group_id = Some gid, is_bulk_upload = True, awaiting_search = False,
                    awaiting_new_group = False\<rparr>"

definition bulk_state :: state where
  "bulk_state = \<lparr>st_db = docs_db, st_user_data = (\<lambda>_. no_data)(101 := bulk_data 5)\<rparr>"

definition bulk_events :: "(int \<times> event) list" where
  "bulk_events = [(60, EvUpload alice notes_msg (Forwarded 78) rnd1),
                  (61, EvStart bob [''AAECAwQFRgeICQoLDA'']),
                  (62, EvUpload alice notes_msg FloodWait rnd2),
                  (63, EvUpload alice notes_msg (Forwarded 79) rnd2)]"

text \<open>A link without its \<open>active\<close> flag: what no pass of the expiry worker changes.\<close>

definition link_core :: "link_row \<Rightarrow> link_row" where
  "link_core l = l\<lparr>l_active := True\<rparr>"

text \<open>Three start commands with the code of the second link of the store.\<close>

definition share_state :: state where
  "share_state = \<lparr>st_db = share_db, st_user_data = (\<lambda>_. no_data)\<rparr>"

definition three_starts :: "(int \<times> event) list" where
  "three_starts = [(100, EvStart bob [''BBECAwQFRgeICQoLDA'']),
                   (101, EvStart bob [''BBECAwQFRgeICQoLDA'']),
                   (102, EvStart bob [''BBECAwQFRgeICQoLDA''])]"

text \<open>
  The store after a link limited to one download has been issued for the file, and a
  run on it: start commands with the link's code, a download and a sweep.
\<close>

definition limited_state :: state where
  "limited_state =
     \<lparr>st_db = fst (create_share_link 50 rnd1 1 1 101 None (Some 1) docs_db),
      st_user_data = (\<lambda>_. no_data)\<rparr>"

definition limited_events :: "(int \<times> event) list" where
  "limited_events = [(100, EvStart bob [''EAECAwQFRgeICQoLDA'']),
                     (101, EvCallback 202 (Download 1 1) [] True True),
                     (102, EvReap),
                     (103, EvStart bob [''EAECAwQFRgeICQoLDA''])]"

text \<open>
  The keys of a table: distinct, positive and not above the last value of the
  sequence, as a \<^verbatim>\<open>SERIAL PRIMARY KEY\<close> keeps them. A store is well formed when the
  keys of its files and of its links are.
\<close>

definition ids_ok :: "int list \<Rightarrow> int \<Rightarrow> bool" where
  "ids_ok ids seq = (distinct ids \<and> (\<forall>i \<in> set ids. 0 < i \<and> i \<le> seq))"

definition wf_db :: "db \<Rightarrow> bool" where
  "wf_db d =
     (0 \<le> files_seq d \<and> ids_ok (map f_id (files d)) (files_seq d)
      \<and> 0 \<le> links_seq d \<and> ids_ok (map l_id (links d)) (links_seq d))"

subsection \<open>Properties of the codes\<close>

lemma b64_char_in: "n < 64 \<Longrightarrow> b64_char n \<in> set b64_alphabet"
  unfolding b64_char_def by (rule nth_mem) (simp add: b64_alphabet_def)

lemma b64_char_not_pad: "n < 64 \<Longrightarrow> b64_char n \<noteq> CHR ''=''"
proof -
  assume "n < 64"
  then have "b64_char n \<in> set b64_alphabet" by (rule b64_char_in)
  moreover have "CHR ''='' \<notin> set b64_alphabet" by (simp add: b64_alphabet_def)
  ultimately show ?thesis by metis
qed

lemma byte_bound: "unat (a :: byte) < 256"
  using unsigned_less [of a, where 'a = nat] by simp

lemma sextet_hi: "unat (a :: byte) div 4 < 64"
  using byte_bound [of a] by simp

lemma sextet_mid1: "(unat (a :: byte) mod 4) * 16 + unat (b :: byte) div 16 < 64"
proof -
  have "unat a mod 4 < 4" by simp
  moreover have "unat b div 16 < 16" using byte_bound [of b] by simp
  ultimately show ?thesis by linarith
qed

lemma sextet_mid2: "(unat (b :: byte) mod 16) * 4 + unat (c :: byte) div 64 < 64"
proof -
  have "unat b mod 16 < 16" by simp
  moreover have "unat c div 64 < 4" using byte_bound [of c] by simp
  ultimately show ?thesis by linarith
qed

lemma sextet_lo: "unat (c :: byte) mod 64 < 64"
  by simp

lemma sextet_last: "(unat (a :: byte) mod 4) * 16 < 64"
proof -
  have "unat a mod 4 < 4" by simp
  then show ?thesis by linarith
qed

lemmas sextet_bounds = sextet_hi sextet_mid1 sextet_mid2 sextet_lo sextet_last

lemma list16:
  assumes "length (xs :: 'a list) = 16"
  obtains x0 x1 x2 x3 x4 x5 x6 x7 x8 x9 x10 x11 x12 x13 x14 x15 where
    "xs = [x0, x1, x2, x3, x4, x5, x6, x7, x8, x9, x10, x11, x12, x13, x14, x15]"
proof -
  from assms have "length xs =
      Suc (Suc (Suc (Suc (Suc (Suc (Suc (Suc (Suc (Suc (Suc (Suc (Suc (Suc (Suc (Suc 0)))))))))))))))"
    by simp
  then show thesis using that by (auto simp: length_Suc_conv)
qed

lemma b64_alphabet_distinct: "distinct b64_alphabet"
  by (simp add: b64_alphabet_def)

lemma b64_char_inj: "n < 64 \<Longrightarrow> m < 64 \<Longrightarrow> b64_char n = b64_char m \<longleftrightarrow> n = m"
  unfolding b64_char_def
  by (rule nth_eq_iff_index_eq [OF b64_alphabet_distinct]) (simp_all add: b64_alphabet_def)

lemma split_sum_eq:
  fixes h l h' l' k :: nat
  assumes "l < k" "l' < k" "h * k + l = h' * k + l'"
  shows "h = h' \<and> l = l'"
proof -
  have "(h * k + l) div k = h" "(h' * k + l') div k = h'" using assms(1,2) by simp_all
  with assms(3) have "h = h'" by metis
  with assms(3) show ?thesis by simp
qed

lemma pair_inj_nat:
  fixes a b a' b' :: nat
  assumes "b < 256" "b' < 256"
    and "a div 4 = a' div 4"
    and "(a mod 4) * 16 + b div 16 = (a' mod 4) * 16 + b' div 16"
  shows "a = a' \<and> b div 16 = b' div 16"
proof -
  from assms(1,2) have "b div 16 < 16" "b' div 16 < 16" by simp_all
  from split_sum_eq [OF this assms(4)] have m: "a mod 4 = a' mod 4" and d: "b div 16 = b' div 16"
    by simp_all
  have "a = (a div 4) * 4 + a mod 4" by simp
  also have "\<dots> = (a' div 4) * 4 + a' mod 4" using assms(3) m by simp
  also have "\<dots> = a'" by simp
  finally show ?thesis using d by simp
qed

lemma triple_inj_nat:
  fixes a b c a' b' c' :: nat
  assumes "b < 256" "b' < 256" "c < 256" "c' < 256"
    and "a div 4 = a' div 4"
    and "(a mod 4) * 16 + b div 16 = (a' mod 4) * 16 + b' div 16"
    and "(b mod 16) * 4 + c div 64 = (b' mod 16) * 4 + c' div 64"
    and "c mod 64 = c' mod 64"
  shows "a = a' \<and> b = b' \<and> c = c'"
proof -
  from pair_inj_nat [OF assms(1,2,5,6)] have a: "a = a'" and bd: "b div 16 = b' div 16"
    by simp_all
  from assms(3,4) have "c div 64 < 4" "c' div 64 < 4" by simp_all
  from split_sum_eq [OF this assms(7)] have bm: "b mod 16 = b' mod 16" and cd: "c div 64 = c' div 64"
    by simp_all
  have "b = (b div 16) * 16 + b mod 16" by simp
  also have "\<dots> = (b' div 16) * 16 + b' mod 16" using bd bm by simp
  also have "\<dots> = b'" by simp
  finally have b: "b = b'" .
  have "c = (c div 64) * 64 + c mod 64" by simp
  also have "\<dots> = (c' div 64) * 64 + c' mod 64" using cd assms(8) by simp
  also have "\<dots> = c'" by simp
  finally have c: "c = c'" .
  from a b c show ?thesis by simp
qed


lemma gen_code_chars:
  assumes "uuid4_bytes rnd = [x0, x1, x2, x3, x4, x5, x6, x7, x8, x9, x10, x11, x12, x13, x14, x15]"
  shows "gen_code rnd =
    [b64_char (unat x0 div 4),
     b64_char ((unat x0 mod 4) * 16 + unat x1 div 16),
     b64_char ((unat x1 mod 16) * 4 + unat x2 div 64),
     b64_char (unat x2 mod 64),
     b64_char (unat x3 div 4),
     b64_char ((unat x3 mod 4) * 16 + unat x4 div 16),
     b64_char ((unat x4 mod 16) * 4 + unat x5 div 64),
     b64_char (unat x5 mod 64),
     b64_char (unat x6 div 4),
     b64_char ((unat x6 mod 4) * 16 + unat x7 div 16),
     b64_char ((unat x7 mod 16) * 4 + unat x8 div 64),
     b64_char (unat x8 mod 64),
     b64_char (unat x9 div 4),
     b64_char ((unat x9 mod 4) * 16 + unat x10 div 16),
     b64_char ((unat x10 mod 16) * 4 + unat x11 div 64),
     b64_char (unat x11 mod 64),
     b64_char (unat x12 div 4),
     b64_char ((unat x12 mod 4) * 16 + unat x13 div 16)]"
  by (simp add: gen_code_def assms rstrip_def b64_char_not_pad sextet_bounds)

lemma byte_triple_inj:
  fixes a b c a' b' c' :: byte
  assumes "b64_char (unat a div 4) = b64_char (unat a' div 4)"
    and "b64_char ((unat a mod 4) * 16 + unat b div 16) = b64_char ((unat a' mod 4) * 16 + unat b' div 16)"
    and "b64_char ((unat b mod 16) * 4 + unat c div 64) = b64_char ((unat b' mod 16) * 4 + unat c' div 64)"
    and "b64_char (unat c mod 64) = b64_char (unat c' mod 64)"
  shows "a = a' \<and> b = b' \<and> c = c'"
proof -
  from assms have "unat a div 4 = unat a' div 4"
    "(unat a mod 4) * 16 + unat b div 16 = (unat a' mod 4) * 16 + unat b' div 16"
    "(unat b mod 16) * 4 + unat c div 64 = (unat b' mod 16) * 4 + unat c' div 64"
    "unat c mod 64 = unat c' mod 64"
    by (simp_all add: b64_char_inj sextet_bounds)
  from triple_inj_nat [OF byte_bound byte_bound byte_bound byte_bound this]
  show ?thesis by (simp add: word_unat_eq_iff)
qed

lemma byte_pair_inj:
  fixes a b a' b' :: byte
  assumes "b64_char (unat a div 4) = b64_char (unat a' div 4)"
    and "b64_char ((unat a mod 4) * 16 + unat b div 16) = b64_char ((unat a' mod 4) * 16 + unat b' div 16)"
  shows "a = a'"
proof -
  from assms have "unat a div 4 = unat a' div 4"
    "(unat a mod 4) * 16 + unat b div 16 = (unat a' mod 4) * 16 + unat b' div 16"
    by (simp_all add: b64_char_inj sextet_bounds)
  from pair_inj_nat [OF byte_bound byte_bound this]
  show ?thesis by (simp add: word_unat_eq_iff)
qed

lemma gen_code_inj:
  assumes "length rnd = 16" and "length rnd' = 16" and "gen_code rnd' = gen_code rnd"
  shows "take 13 (uuid4_bytes rnd') = take 13 (uuid4_bytes rnd)"
proof -
  have "length (uuid4_bytes rnd) = 16" "length (uuid4_bytes rnd') = 16"
    using assms(1,2) by (simp_all add: uuid4_bytes_def)
  note len = this
  from len(1) obtain x0 x1 x2 x3 x4 x5 x6 x7 x8 x9 x10 x11 x12 x13 x14 x15 where
    u: "uuid4_bytes rnd = [x0, x1, x2, x3, x4, x5, x6, x7, x8, x9, x10, x11, x12, x13, x14, x15]"
    by (rule list16)
  from len(2) obtain y0 y1 y2 y3 y4 y5 y6 y7 y8 y9 y10 y11 y12 y13 y14 y15 where
    u': "uuid4_bytes rnd' = [y0, y1, y2, y3, y4, y5, y6, y7, y8, y9, y10, y11, y12, y13, y14, y15]"
    by (rule list16)
  from assms(3) have eq:
    "[b64_char (unat y0 div 4),
     b64_char ((unat y0 mod 4) * 16 + unat y1 div 16),
     b64_char ((unat y1 mod 16) * 4 + unat y2 div 64),
     b64_char (unat y2 mod 64),
     b64_char (unat y3 div 4),
     b64_char ((unat y3 mod 4) * 16 + unat y4 div 16),
     b64_char ((unat y4 mod 16) * 4 + unat y5 div 64),
     b64_char (unat y5 mod 64),
     b64_char (unat y6 div 4),
     b64_char ((unat y6 mod 4) * 16 + unat y7 div 16),
     b64_char ((unat y7 mod 16) * 4 + unat y8 div 64),
     b64_char (unat y8 mod 64),
     b64_char (unat y9 div 4),
     b64_char ((unat y9 mod 4) * 16 + unat y10 div 16),
     b64_char ((unat y10 mod 16) * 4 + unat y11 div 64),
     b64_char (unat y11 mod 64),
     b64_char (unat y12 div 4),
     b64_char ((unat y12 mod 4) * 16 + unat y13 div 16)]
     = [b64_char (unat x0 div 4),
     b64_char ((unat x0 mod 4) * 16 + unat x1 div 16),
     b64_char ((unat x1 mod 16) * 4 + unat x2 div 64),
     b64_char (unat x2 mod 64),
     b64_char (unat x3 div 4),
     b64_char ((unat x3 mod 4) * 16 + unat x4 div 16),
     b64_char ((unat x4 mod 16) * 4 + unat x5 div 64),
     b64_char (unat x5 mod 64),
     b64_char (unat x6 div 4),
     b64_char ((unat x6 mod 4) * 16 + unat x7 div 16),
     b64_char ((unat x7 mod 16) * 4 + unat x8 div 64),
     b64_char (unat x8 mod 64),
     b64_char (unat x9 div 4),
     b64_char ((unat x9 mod 4) * 16 + unat x10 div 16),
     b64_char ((unat x10 mod 16) * 4 + unat x11 div 64),
     b64_char (unat x11 mod 64),
     b64_char (unat x12 div 4),
     b64_char ((unat x12 mod 4) * 16 + unat x13 div 16)]"
    by (simp only: gen_code_chars [OF u] gen_code_chars [OF u'])
  from eq have "y0 = x0 \<and> y1 = x1 \<and> y2 = x2"
    by (intro byte_triple_inj) (simp_all only: list.inject)
  moreover from eq have "y3 = x3 \<and> y4 = x4 \<and> y5 = x5"
    by (intro byte_triple_inj) (simp_all only: list.inject)
  moreover from eq have "y6 = x6 \<and> y7 = x7 \<and> y8 = x8"
    by (intro byte_triple_inj) (simp_all only: list.inject)
  moreover from eq have "y9 = x9 \<and> y10 = x10 \<and> y11 = x11"
    by (intro byte_triple_inj) (simp_all only: list.inject)
  moreover from eq have "y12 = x12"
    by (intro byte_pair_inj [of y12 x12 y13 x13]) (simp_all only: list.inject)
  ultimately show ?thesis by (simp add: u u')
qed


lemma gen_code_take:
  assumes "length rnd = 16"
  shows "gen_code rnd = take 18 (urlsafe_b64encode (uuid4_bytes rnd))"
proof -
  have "length (uuid4_bytes rnd) = 16" using assms by (simp add: uuid4_bytes_def)
  then obtain x0 x1 x2 x3 x4 x5 x6 x7 x8 x9 x10 x11 x12 x13 x14 x15 where
    u: "uuid4_bytes rnd = [x0, x1, x2, x3, x4, x5, x6, x7, x8, x9, x10, x11, x12, x13, x14, x15]"
    by (rule list16)
  show ?thesis by (simp add: gen_code_chars [OF u] u)
qed

text \<open>
  C9. Whatever sixteen random bytes the UUID is drawn from, the generated code has
  exactly 18 characters, each of them in the URL-safe base64 alphabet
  (\<open>A\<close>--\<open>Z\<close>, \<open>a\<close>--\<open>z\<close>, \<open>0\<close>--\<open>9\<close>, \<open>-\<close>, \<open>_\<close>). It is derived from the
  UUID: it is the first 18 characters of the encoding of the UUID's sixteen bytes, and
  it determines the first thirteen of them, so that two draws with the same code
  agree on these bytes.
\<close>

theorem gen_code_shape:
  assumes "length rnd = 16"
  shows "length (gen_code rnd) = 18 \<and> set (gen_code rnd) \<subseteq> set b64_alphabet
       \<and> gen_code rnd = take 18 (urlsafe_b64encode (uuid4_bytes rnd))
       \<and> (\<forall>rnd'. length rnd' = 16 \<and> gen_code rnd' = gen_code rnd
              \<longrightarrow> take 13 (uuid4_bytes rnd') = take 13 (uuid4_bytes rnd))"
proof -
  have "length (uuid4_bytes rnd) = 16" using assms by (simp add: uuid4_bytes_def)
  then obtain x0 x1 x2 x3 x4 x5 x6 x7 x8 x9 x10 x11 x12 x13 x14 x15 where
    u: "uuid4_bytes rnd = [x0, x1, x2, x3, x4, x5, x6, x7, x8, x9, x10, x11, x12, x13, x14, x15]"
    by (rule list16)
  have "length (gen_code rnd) = 18 \<and> set (gen_code rnd) \<subseteq> set b64_alphabet"
    by (simp add: gen_code_chars [OF u] b64_char_in sextet_bounds)
  moreover note gen_code_take [OF assms]
  moreover have "\<forall>rnd'. length rnd' = 16 \<and> gen_code rnd' = gen_code rnd
              \<longrightarrow> take 13 (uuid4_bytes rnd') = take 13 (uuid4_bytes rnd)"
    using gen_code_inj [OF assms] by blast
  ultimately show ?thesis by blast
qed

theorem gen_code_shape_witness:
  "length rnd0 = 16
   \<and> gen_code rnd0 = ''AAECAwQFRgeICQoLDA''
   \<and> gen_code rnd1 = ''EAECAwQFRgeICQoLDA''
   \<and> gen_code rnd2 = ''IAECAwQFRgeICQoLDA''
   \<and> length (gen_code rnd0) = 18
   \<and> set (gen_code rnd0) \<subseteq> set b64_alphabet
   \<and> take 18 (urlsafe_b64encode (uuid4_bytes rnd0)) = ''AAECAwQFRgeICQoLDA''
   \<and> length [0, 1, 2, 3, 4, 5, 6, 7, 8, 9, 10, 11, 12, 13, 77, 0 :: byte] = 16
   \<and> gen_code [0, 1, 2, 3, 4, 5, 6, 7, 8, 9, 10, 11, 12, 13, 77, 0] = gen_code rnd0
   \<and> take 13 (uuid4_bytes [0, 1, 2, 3, 4, 5, 6, 7, 8, 9, 10, 11, 12, 13, 77, 0])
       = take 13 (uuid4_bytes rnd0)"
  using gen_code_shape [of rnd0]
  by (simp add: rnd0_def rnd1_def rnd2_def gen_code_def uuid4_bytes_def rstrip_def b64_char_def
      b64_alphabet_def)


subsection \<open>Properties of the handlers\<close>

lemma find_append_if:
  "find P (xs @ ys) = (case find P xs of None \<Rightarrow> find P ys | Some x \<Rightarrow> Some x)"
  by (induction xs) auto

lemma find_map_touch:
  assumes "\<And>r. k (g r) = k r"
  shows "find (\<lambda>r. k r = u) (map (\<lambda>r. if k r = v then g r else r) xs)
         = map_option (\<lambda>r. if k r = v then g r else r) (find (\<lambda>r. k r = u) xs)"
  using assms by (induction xs) auto

lemma find_None_iff': "find P xs = None \<longleftrightarrow> \<not> (\<exists>x \<in> set xs. P x)"
  by (induction xs) auto

lemma uploads_of_upsert:
  "uploads_of u (upsert_stats now uid ups downs d) =
     (if u = uid then (case uploads_of u d of None \<Rightarrow> Some ups | Some n \<Rightarrow> Some (n + ups))
      else uploads_of u d)"
proof (cases "\<exists>r \<in> set (stats d). s_user_id r = uid")
  case True
  then have ex: "find (\<lambda>r. s_user_id r = uid) (stats d) \<noteq> None"
    by (simp add: find_None_iff')
  have "find (\<lambda>r. s_user_id r = u) (map (\<lambda>r. if s_user_id r = uid
                         then r\<lparr>s_uploads := s_uploads r + ups,
                                s_downloads := s_downloads r + downs,
                                s_last_active := Some now\<rparr>
                         else r) (stats d)) =
        map_option (\<lambda>r. if s_user_id r = uid
                         then r\<lparr>s_uploads := s_uploads r + ups,
                                s_downloads := s_downloads r + downs,
                                s_last_active := Some now\<rparr>
                         else r) (find (\<lambda>r. s_user_id r = u) (stats d))"
    by (rule find_map_touch) simp
  with True ex show ?thesis
    by (cases "find (\<lambda>r. s_user_id r = u) (stats d)")
       (auto simp: uploads_of_def upsert_stats_def dest: find_Some_iff [THEN iffD1])
next
  case False
  then have "find (\<lambda>r. s_user_id r = uid) (stats d) = None"
    by (simp add: find_None_iff')
  with False show ?thesis
    by (auto simp: uploads_of_def upsert_stats_def find_append_if split: option.splits)
qed

lemma ensure_user_frame:
  "files (ensure_user now user d) = files d"
  "groups (ensure_user now user d) = groups d"
  "links (ensure_user now user d) = links d"
  "files_seq (ensure_user now user d) = files_seq d"
  "links_seq (ensure_user now user d) = links_seq d"
  by (simp_all add: ensure_user_def upsert_stats_def)

lemma uploads_of_cong: "stats d' = stats d \<Longrightarrow> uploads_of u d' = uploads_of u d"
  by (simp add: uploads_of_def)

lemma uploads_of_ensure_user:
  "uploads_of u (ensure_user now user d) =
     (if u = tg_id user \<and> uploads_of u d = None then Some 0 else uploads_of u d)"
proof -
  define d1 where "d1 = d\<lparr>users_seq := users_seq d + 1,
          users :=
            (if \<exists>r \<in> set (users d). u_user_id r = tg_id user then users d
             else users d @ [\<lparr>u_id = users_seq d + 1, u_user_id = tg_id user,
                               u_username = tg_username user,
                               u_first_name = tg_first_name user,
                               u_joined_at = now, u_is_active = True\<rparr>])\<rparr>"
  have e: "ensure_user now user d = upsert_stats now (tg_id user) 0 0 d1"
    by (simp add: ensure_user_def d1_def)
  have "stats d1 = stats d" by (simp add: d1_def)
  then have "uploads_of u d1 = uploads_of u d" by (rule uploads_of_cong)
  then show ?thesis
    by (auto simp: e uploads_of_upsert split: option.splits)
qed

text \<open>
  C10. An upload message that arrives while no group is selected (no entry, or the
  entry 0, which the handler treats alike), or that carries neither a document nor a
  photo nor a video, does to the store what the registration of the sender does and
  nothing else, and leaves the session as it is. No row is added to the files, no
  group and no link changes. The users gain the sender's row if the sender had none.
  The statistics gain a row without uploads or downloads for a sender who had none,
  and otherwise only \<open>last_active\<close> of the sender's row is set; every other row, and
  every user's uploads counter, stays as it was.
\<close>

theorem upload_rejected_frame:
  assumes "upload_group_id ud = None \<or> upload_group_id ud = Some 0
           \<or> (m_document msg = None \<and> m_photo msg = [] \<and> m_video msg = None)"
    and "handle_upload now user msg fwd rnd (d, ud) = (d', ud', r)"
  shows "d' = ensure_user now user d \<and> ud' = ud \<and> r \<in> {SelectGroupFirst, UnsupportedType}
       \<and> files d' = files d \<and> groups d' = groups d \<and> links d' = links d
       \<and> files_seq d' = files_seq d \<and> links_seq d' = links_seq d
       \<and> users d' =
           (if \<exists>u \<in> set (users d). u_user_id u = tg_id user then users d
            else users d @ [\<lparr>u_id = users_seq d + 1, u_user_id = tg_id user,
                              u_username = tg_username user, u_first_name = tg_first_name user,
                              u_joined_at = now, u_is_active = True\<rparr>])
       \<and> stats d' =
           (if \<exists>s \<in> set (stats d). s_user_id s = tg_id user
            then map (\<lambda>s. if s_user_id s = tg_id user then s\<lparr>s_last_active := Some now\<rparr> else s)
                   (stats d)
            else stats d @ [\<lparr>s_id = stats_seq d + 1, s_user_id = tg_id user, s_uploads = 0,
                              s_downloads = 0, s_last_active = Some now\<rparr>])
       \<and> (\<forall>u. uploads_of u d' = uploads_of u d
              \<or> (u = tg_id user \<and> uploads_of u d = None \<and> uploads_of u d' = Some 0))"
proof -
  from assms have e: "d' = ensure_user now user d" and "ud' = ud"
    and "r \<in> {SelectGroupFirst, UnsupportedType}"
    by (auto simp: handle_upload_def pick_media_def Let_def split: option.splits if_splits)
  moreover have "users (ensure_user now user d) =
           (if \<exists>u \<in> set (users d). u_user_id u = tg_id user then users d
            else users d @ [\<lparr>u_id = users_seq d + 1, u_user_id = tg_id user,
                              u_username = tg_username user, u_first_name = tg_first_name user,
                              u_joined_at = now, u_is_active = True\<rparr>])"
    by (simp add: ensure_user_def upsert_stats_def)
  moreover have "stats (ensure_user now user d) =
           (if \<exists>s \<in> set (stats d). s_user_id s = tg_id user
            then map (\<lambda>s. if s_user_id s = tg_id user then s\<lparr>s_last_active := Some now\<rparr> else s)
                   (stats d)
            else stats d @ [\<lparr>s_id = stats_seq d + 1, s_user_id = tg_id user, s_uploads = 0,
                              s_downloads = 0, s_last_active = Some now\<rparr>])"
    by (simp add: ensure_user_def upsert_stats_def)
  ultimately show ?thesis
    by (simp add: ensure_user_frame uploads_of_ensure_user)
qed

theorem upload_rejected_frame_witness:
  "upload_group_id no_data = None
   \<and> handle_upload 50 bob \<lparr>m_document = None, m_photo = [], m_video = None\<rparr>
        (Forwarded 78) rnd0 (docs_db, no_data)
       = (docs_db\<lparr>users := [\<lparr>u_id = 1, u_user_id = 202, u_username = Some ''bob'',
                                u_first_name = Some ''Bob'', u_joined_at = 50,
                                u_is_active = True\<rparr>],
                   stats := [\<lparr>s_id = 1, s_user_id = 202, s_uploads = 0, s_downloads = 0,
                               s_last_active = Some 50\<rparr>],
                   users_seq := 1, stats_seq := 1\<rparr>,
          no_data, SelectGroupFirst)
   \<and> uploads_of 202 docs_db = None"
  using upload_rejected_frame [of no_data "\<lparr>m_document = None, m_photo = [], m_video = None\<rparr>"
      50 bob "Forwarded 78" rnd0 docs_db
      "fst (handle_upload 50 bob \<lparr>m_document = None, m_photo = [], m_video = None\<rparr>
              (Forwarded 78) rnd0 (docs_db, no_data))"
      no_data SelectGroupFirst]
  by (simp add: no_data_def handle_upload_def ensure_user_def upsert_stats_def uploads_of_def
      docs_db_def init_db_def bob_def)

lemma fold_deactivate_frame:
  "users (fold (\<lambda>r. deactivate (l_id r)) rows d) = users d"
  "groups (fold (\<lambda>r. deactivate (l_id r)) rows d) = groups d"
  "files (fold (\<lambda>r. deactivate (l_id r)) rows d) = files d"
  "stats (fold (\<lambda>r. deactivate (l_id r)) rows d) = stats d"
  "users_seq (fold (\<lambda>r. deactivate (l_id r)) rows d) = users_seq d"
  "files_seq (fold (\<lambda>r. deactivate (l_id r)) rows d) = files_seq d"
  "links_seq (fold (\<lambda>r. deactivate (l_id r)) rows d) = links_seq d"
  "stats_seq (fold (\<lambda>r. deactivate (l_id r)) rows d) = stats_seq d"
  by (induction rows arbitrary: d; simp add: deactivate_def)+

lemma fold_deactivate_links:
  "links (fold (\<lambda>r. deactivate (l_id r)) rows d) =
     map (\<lambda>l. if l_id l \<in> l_id ` set rows then l\<lparr>l_active := False\<rparr> else l) (links d)"
proof (induction rows arbitrary: d)
  case Nil
  then show ?case by (simp add: map_idI)
next
  case (Cons r rows)
  have "links (deactivate (l_id r) d) =
          map (\<lambda>l. if l_id l = l_id r then l\<lparr>l_active := False\<rparr> else l) (links d)"
    by (simp add: deactivate_def)
  then show ?case
    by (simp add: Cons.IH) 
qed

lemma expired_id_iff:
  assumes "distinct (map l_id ls)" "l \<in> set ls"
  shows "l_id l \<in> l_id ` set (filter P ls) \<longleftrightarrow> P l"
proof
  assume "l_id l \<in> l_id ` set (filter P ls)"
  then obtain l' where l': "l' \<in> set ls" "P l'" "l_id l' = l_id l" by auto
  from assms l'(1,3) have "l' = l" by (meson distinct_map inj_onD)
  with l'(2) show "P l" by simp
next
  assume "P l"
  with assms(2) show "l_id l \<in> l_id ` set (filter P ls)" by auto
qed

lemma expiry_cycle_links:
  assumes "distinct (map l_id (links d))"
  shows "links (fst (expiry_cycle now d)) =
           map (\<lambda>l. if is_expired now l then l\<lparr>l_active := False\<rparr> else l) (links d)"
proof -
  have "expired_rows now d = filter (is_expired now) (links d)"
    by (simp add: expired_rows_def)
  then have "links (fst (expiry_cycle now d)) =
      map (\<lambda>l. if l_id l \<in> l_id ` set (filter (is_expired now) (links d))
                 then l\<lparr>l_active := False\<rparr> else l) (links d)"
    by (simp add: expiry_cycle_def Let_def fold_deactivate_links)
  also have "\<dots> = map (\<lambda>l. if is_expired now l then l\<lparr>l_active := False\<rparr> else l) (links d)"
    by (rule map_cong) (simp_all add: expired_id_iff [OF assms] del: set_filter)
  finally show ?thesis .
qed

text \<open>
  C7. A pass of the expiry worker writes to the links only, and to nothing but their
  \<open>active\<close> flag: every link is left as it was, or it was active with an expiry time
  that is set and not after the time of the sweep, and is now the same row with
  \<open>active\<close> false. The keys of the links are distinct, as the primary key makes them.
\<close>

theorem expiry_cycle_sound:
  assumes "distinct (map l_id (links d))"
  shows "users (fst (expiry_cycle now d)) = users d
       \<and> groups (fst (expiry_cycle now d)) = groups d
       \<and> files (fst (expiry_cycle now d)) = files d
       \<and> stats (fst (expiry_cycle now d)) = stats d
       \<and> length (links (fst (expiry_cycle now d))) = length (links d)
       \<and> (\<forall>i < length (links d).
             links (fst (expiry_cycle now d)) ! i = links d ! i
           \<or> (links (fst (expiry_cycle now d)) ! i = (links d ! i)\<lparr>l_active := False\<rparr>
              \<and> l_active (links d ! i)
              \<and> (\<exists>e. l_expires_at (links d ! i) = Some e \<and> e \<le> now)))"
proof -
  have frame: "users (fst (expiry_cycle now d)) = users d"
    "groups (fst (expiry_cycle now d)) = groups d"
    "files (fst (expiry_cycle now d)) = files d"
    "stats (fst (expiry_cycle now d)) = stats d"
    by (simp_all add: expiry_cycle_def Let_def fold_deactivate_frame)
  have "is_expired now l \<Longrightarrow> l_active l \<and> (\<exists>e. l_expires_at l = Some e \<and> e \<le> now)" for l
    by (auto simp: is_expired_def split: option.splits)
  then show ?thesis
    by (auto simp only: frame expiry_cycle_links [OF assms] length_map nth_map split: if_splits)
qed


theorem expiry_cycle_sound_witness:
  "distinct (map l_id (links share_db))
   \<and> map l_active (links (fst (expiry_cycle 100 share_db))) = [False, True]
   \<and> links (fst (expiry_cycle 100 share_db)) ! 0 = (links share_db ! 0)\<lparr>l_active := False\<rparr>
   \<and> links (fst (expiry_cycle 100 share_db)) ! 1 = links share_db ! 1
   \<and> files (fst (expiry_cycle 100 share_db)) = files share_db"
  using expiry_cycle_sound [of share_db 100]
  by (simp add: share_db_def docs_db_def init_db_def expiry_cycle_def expired_rows_def
      is_expired_def deactivate_def)

lemma find_Some_ex: "\<exists>x \<in> set xs. P x \<Longrightarrow> \<exists>y. find P xs = Some y \<and> y \<in> set xs \<and> P y"
  by (induction xs) auto

text \<open>
  C5. For an existing file, the delete request of a user who is neither the owner of
  the group nor an administrator is answered with the refusal, and the store (the
  file's row, the group's count and size, everything else) stays as it is.
\<close>

theorem delete_not_permitted:
  assumes "\<exists>f \<in> set (files d). f_group_id f = gid \<and> f_serial f = serial"
    and "group_owner gid d \<noteq> Some uid"
    and "\<not> is_admin admin_ids uid"
  shows "callback_handler admin_ids now uid (Delete gid serial) rnd copy_ok delete_ok (d, ud)
         = (d, ud, NotPermitted)"
proof -
  from assms(1) obtain f where "find (\<lambda>f. f_group_id f = gid \<and> f_serial f = serial) (files d) = Some f"
    using find_Some_ex [of "files d" "\<lambda>f. f_group_id f = gid \<and> f_serial f = serial"] by blast
  with assms(2,3) show ?thesis
    by (auto simp: callback_handler_def)
qed

theorem delete_not_permitted_witness:
  "(\<exists>f \<in> set (files docs_db). f_group_id f = 1 \<and> f_serial f = 1)
   \<and> group_owner 1 docs_db = Some 101 \<and> \<not> is_admin [900] 202
   \<and> callback_handler [900] 50 202 (Delete 1 1) [] True True (docs_db, no_data)
       = (docs_db, no_data, NotPermitted)"
  using delete_not_permitted [of docs_db 1 1 202 "[900]" 50 "[]" True True no_data]
  by (simp add: docs_db_def init_db_def group_owner_def is_admin_def)

text \<open>
  C6. The owner deletes the only file, of 5000 bytes, of the group \<open>Docs\<close>, and the
  chat service fails to delete the stored message. The row is removed all the same
  and the group's count goes from 1 to 0, but the group's size stays 5000: the update
  of the group after a delete subtracts from \<open>total_files\<close> only, where the update after
  an upload adds to both \<open>total_files\<close> and \<open>total_size\<close>.
\<close>

theorem delete_keeps_total_size:
  "callback_handler [900] 50 101 (Delete 1 1) [] True False (docs_db, no_data)
     = (docs_db\<lparr>files := [],
                 groups := [\<lparr>g_id = 1, g_name = ''Docs'', g_owner_id = 101, g_created_at = 0,
                             g_total_files = 0, g_total_size = 5000\<rparr>]\<rparr>,
        no_data, Deleted)"
  by (simp add: callback_handler_def docs_db_def init_db_def group_owner_def is_admin_def
      delete_file_def)





subsection \<open>Properties of the search\<close>

lemma like_percent_only: "like [CHR ''%''] s"
  by (induction s) auto

lemma like_literal_Cons:
  "c \<noteq> CHR ''%'' \<Longrightarrow> c \<noteq> CHR ''_'' \<Longrightarrow> c \<noteq> CHR 0x5C \<Longrightarrow>
   like (c # p) s = (case s of [] \<Rightarrow> False | x # s' \<Rightarrow> x = c \<and> like p s')"
  by simp

lemma like_literal_prefix:
  "literal q \<Longrightarrow> like (q @ p) s = (prefix q s \<and> like p (drop (length q) s))"
proof (induction q arbitrary: s)
  case Nil
  then show ?case by simp
next
  case (Cons c q)
  then have c: "c \<noteq> CHR ''%''" "c \<noteq> CHR ''_''" "c \<noteq> CHR 0x5C" and q: "literal q"
    by (simp_all add: literal_def)
  show ?case
  proof (cases s)
    case Nil
    then show ?thesis using c by simp
  next
    case (Cons x s')
    have "like ((c # q) @ p) s = (x = c \<and> like (q @ p) s')"
      using c Cons by simp
    also have "\<dots> = (x = c \<and> prefix q s' \<and> like p (drop (length q) s'))"
      using Cons.IH [OF q] by simp
    finally show ?thesis using Cons by auto
  qed
qed

lemma like_percent_Cons:
  "like (CHR ''%'' # p) s = (\<exists>k \<le> length s. like p (drop k s))"
proof (induction s)
  case Nil
  then show ?case by simp
next
  case (Cons x s)
  have "like (CHR ''%'' # p) (x # s) = (like p (x # s) \<or> like (CHR ''%'' # p) s)"
    by simp
  also have "\<dots> = (like p (x # s) \<or> (\<exists>k \<le> length s. like p (drop k s)))"
    using Cons.IH by simp
  also have "\<dots> = (\<exists>k \<le> length (x # s). like p (drop k (x # s)))"
  proof
    assume "like p (x # s) \<or> (\<exists>k \<le> length s. like p (drop k s))"
    then show "\<exists>k \<le> length (x # s). like p (drop k (x # s))"
    proof
      assume "like p (x # s)"
      then have "like p (drop 0 (x # s))" by simp
      then show ?thesis by blast
    next
      assume "\<exists>k \<le> length s. like p (drop k s)"
      then obtain k where "k \<le> length s" "like p (drop k s)" by blast
      then have "Suc k \<le> length (x # s)" "like p (drop (Suc k) (x # s))" by simp_all
      then show ?thesis by blast
    qed
  next
    assume "\<exists>k \<le> length (x # s). like p (drop k (x # s))"
    then obtain k where k: "k \<le> length (x # s)" "like p (drop k (x # s))" by blast
    show "like p (x # s) \<or> (\<exists>k \<le> length s. like p (drop k s))"
    proof (cases k)
      case 0
      with k show ?thesis by simp
    next
      case (Suc j)
      with k have "j \<le> length s" "like p (drop j s)" by simp_all
      then show ?thesis by blast
    qed
  qed
  finally show ?case .
qed

lemma sublist_iff_drop: "sublist q s \<longleftrightarrow> (\<exists>k \<le> length s. prefix q (drop k s))"
proof
  assume "sublist q s"
  then obtain ps ss where "s = ps @ q @ ss" by (auto simp: sublist_def)
  then have "length ps \<le> length s" "prefix q (drop (length ps) s)" by simp_all
  then show "\<exists>k \<le> length s. prefix q (drop k s)" by blast
next
  assume "\<exists>k \<le> length s. prefix q (drop k s)"
  then obtain k ss where "drop k s = q @ ss" by (auto simp: prefix_def)
  then have "s = take k s @ q @ ss" by (metis append_take_drop_id)
  then show "sublist q s" unfolding sublist_def by blast
qed

lemma like_contains:
  assumes "literal q"
  shows "like (CHR ''%'' # q @ [CHR ''%'']) s = sublist q s"
proof -
  have "like (CHR ''%'' # q @ [CHR ''%'']) s = (\<exists>k \<le> length s. like (q @ [CHR ''%'']) (drop k s))"
    by (rule like_percent_Cons)
  also have "\<dots> = (\<exists>k \<le> length s. prefix q (drop k s))"
    by (simp only: like_literal_prefix [OF assms] like_percent_only simp_thms)
  also have "\<dots> = sublist q s"
    by (simp only: sublist_iff_drop)
  finally show ?thesis .
qed

lemma lower_char_cases: "lower_char c = c \<or> lower_char c \<in> set ''abcdefghijklmnopqrstuvwxyz''"
  by (auto simp: lower_char_def split: option.splits)

lemma literal_lower: "literal q \<Longrightarrow> literal (map lower_char q)"
proof -
  assume q: "literal q"
  have "lower_char c \<noteq> CHR ''%'' \<and> lower_char c \<noteq> CHR ''_'' \<and> lower_char c \<noteq> CHR 0x5C"
    if "c \<noteq> CHR ''%'' \<and> c \<noteq> CHR ''_'' \<and> c \<noteq> CHR 0x5C" for c
    using that lower_char_cases [of c] by auto
  with q show ?thesis by (simp add: literal_def)
qed

lemma ilike_contains:
  assumes "literal q"
  shows "ilike n (CHR ''%'' # q @ [CHR ''%'']) = sublist (map lower_char q) (map lower_char n)"
proof -
  have "lower_char (CHR ''%'') = CHR ''%''" by (simp add: lower_char_def)
  then have "ilike n (CHR ''%'' # q @ [CHR ''%''])
             = like (CHR ''%'' # map lower_char q @ [CHR ''%'']) (map lower_char n)"
    by (simp add: ilike_def)
  also have "\<dots> = sublist (map lower_char q) (map lower_char n)"
    using literal_lower [OF assms] by (rule like_contains)
  finally show ?thesis .
qed

lemma search_rows_literal:
  assumes "literal q"
  shows "search_rows q d =
     take 25 (filter (\<lambda>f. case f_file_name f of None \<Rightarrow> False
                           | Some n \<Rightarrow> sublist (map lower_char q) (map lower_char n)) (files d))"
  by (simp add: search_rows_def ilike_contains [OF assms] cong: option.case_cong)

text \<open>
  C8, as amended. For a search text without \<open>%\<close>, \<open>_\<close> and backslash, the search
  returns the first 25, in the order of the scan of the table, of the files of all
  groups whose name is set and contains the text as a substring, letter case
  ignored; the query sorts nothing.
\<close>

theorem do_search_literal:
  assumes "literal q"
  shows "search_rows q d =
           take 25 (filter (\<lambda>f. case f_file_name f of None \<Rightarrow> False
                                 | Some n \<Rightarrow> sublist (map lower_char q) (map lower_char n)) (files d))
       \<and> do_search q d =
           (if search_rows q d = [] then NoResults
            else Results (map (\<lambda>f. (f_group_id f, f_serial f, f_file_name f)) (search_rows q d)))"
  by (simp add: search_rows_literal [OF assms] do_search_def Let_def)

theorem do_search_literal_witness:
  "literal ''REPORT''
   \<and> do_search ''REPORT'' search_db = Results [(1, 1, Some ''report.pdf''), (2, 1, Some ''Report2.pdf'')]
   \<and> search_rows ''REPORT'' search_db = files search_db"
  using do_search_literal [of "''REPORT''" search_db]
  by (simp add: literal_def search_db_def init_db_def lower_char_def sublist_code prefix_code)

text \<open>
  C8, as stated, fails. The search for \<open>r_p\<close> returns \<open>report.pdf\<close>, whose name does
  not contain \<open>r_p\<close>: the text is put into the pattern as it is, and its \<open>_\<close> stands for
  any character. And the search for \<open>report\<close> returns the file created at 10 before
  the one created at 20: the older one first.
\<close>

theorem do_search_counterexample:
  "do_search ''r_p'' search_db = Results [(1, 1, Some ''report.pdf''), (2, 1, Some ''Report2.pdf'')]
   \<and> \<not> sublist (map lower_char ''r_p'') (map lower_char ''report.pdf'')
   \<and> do_search ''report'' search_db = Results [(1, 1, Some ''report.pdf''), (2, 1, Some ''Report2.pdf'')]
   \<and> map f_created_at (files search_db) = [10, 20]"
  by (simp add: do_search_def search_rows_def ilike_def search_db_def init_db_def lower_char_def
      sublist_code prefix_code Let_def)

subsection \<open>Properties of runs\<close>

lemma upsert_stats_frame:
  "files (upsert_stats now uid a b d) = files d"
  "groups (upsert_stats now uid a b d) = groups d"
  "links (upsert_stats now uid a b d) = links d"
  "files_seq (upsert_stats now uid a b d) = files_seq d"
  "links_seq (upsert_stats now uid a b d) = links_seq d"
  by (simp_all add: upsert_stats_def)

lemma add_to_group_frame:
  "files (add_to_group gid n d) = files d"
  "links (add_to_group gid n d) = links d"
  "files_seq (add_to_group gid n d) = files_seq d"
  "links_seq (add_to_group gid n d) = links_seq d"
  by (simp_all add: add_to_group_def)



lemma handle_upload_links:
  "links (fst (handle_upload now user msg fwd rnd (d, ud))) = links d"
  by (auto simp: handle_upload_def insert_file_def Let_def ensure_user_frame
        upsert_stats_frame add_to_group_frame
        split: option.splits if_splits forward_result.splits prod.splits)

lemma message_router_frame:
  "files (fst (message_router admin_ids now user txt (d, ud))) = files d"
  "links (fst (message_router admin_ids now user txt (d, ud))) = links d"
  by (auto simp: message_router_def route_text_def choose_group_ui_def Let_def ensure_user_frame
      split: text_msg.splits button.splits)



lemma create_share_link_links:
  "links (fst (create_share_link now rnd gid serial owner ttl maxd d)) = links d
   \<or> (\<exists>l. links (fst (create_share_link now rnd gid serial owner ttl maxd d)) = links d @ [l]
          \<and> l_downloads l = 0 \<and> l_max_downloads l = maxd \<and> l_code l = gen_code rnd)"
  by (auto simp: create_share_link_def Let_def split: option.splits sum.splits)














lemma gen_code_rnd1: "gen_code rnd1 = ''EAECAwQFRgeICQoLDA''"
  by (simp add: rnd1_def gen_code_def uuid4_bytes_def rstrip_def b64_char_def b64_alphabet_def)


lemmas example_defs = docs_db_def init_db_def no_data_def bulk_data_def bulk_state_def
  bulk_events_def alice_def bob_def notes_msg_def

lemmas handler_defs = step_def handle_upload_def cmd_start_def ensure_user_def upsert_stats_def
  insert_file_def add_to_group_def next_serial_def files_of_group_def pick_media_def
  size_or_0_def forget_group_def str_or_def is_admin_def Let_def




subsection \<open>Links under the start command\<close>

lemma callback_handler_links:
  "links (fst (callback_handler admin_ids now uid cb rnd c dl (d, ud))) = links d
   \<or> (\<exists>l. links (fst (callback_handler admin_ids now uid cb rnd c dl (d, ud))) = links d @ [l])"
proof (cases cb)
  case (ShareC gid serial secs)
  from create_share_link_links [of now rnd gid serial uid "if 0 < secs then Some secs else None" None d]
  show ?thesis using ShareC
    by (auto simp: callback_handler_def split: prod.splits sum.splits option.splits)
next
  case (Delete gid serial)
  then show ?thesis
    by (auto simp: callback_handler_def delete_file_def split: option.splits)
qed (auto simp: callback_handler_def upsert_stats_frame split: option.splits)

lemma expiry_cycle_link_core:
  "map link_core (links (fst (expiry_cycle now d))) = map link_core (links d)"
  by (simp add: expiry_cycle_def Let_def fold_deactivate_links link_core_def)

lemma step_link_core:
  "prefix (map link_core (links (st_db s)))
          (map link_core (links (st_db (fst (step admin_ids now ev s)))))"
proof (cases ev)
  case (EvStart user args)
  then show ?thesis by (simp add: step_def cmd_start_def ensure_user_frame)
next
  case (EvText user tm)
  from message_router_frame(2) [of admin_ids now user tm "st_db s" "st_user_data s (tg_id user)"]
  show ?thesis using EvText by (simp add: step_def split_beta)
next
  case (EvUpload user msg fwd rnd)
  from handle_upload_links [of now user msg fwd rnd "st_db s" "st_user_data s (tg_id user)"]
  show ?thesis using EvUpload by (simp add: step_def split_beta)
next
  case (EvCallback uid cb rnd c dl)
  from callback_handler_links [of admin_ids now uid cb rnd c dl "st_db s" "st_user_data s uid"]
  show ?thesis using EvCallback by (auto simp: step_def split_beta)
next
  case EvReap
  from expiry_cycle_link_core [of now "st_db s"]
  show ?thesis using EvReap by (simp add: step_def split_beta)
qed

lemma create_share_link_Some:
  assumes "create_share_link now rnd gid serial owner ttl maxd d = (d1, Inr (Some code))"
  shows "\<exists>l. links d1 = links d @ [l] \<and> l_code l = code \<and> l_max_downloads l = maxd
             \<and> l_downloads l = 0"
  using assms
  by (auto simp: create_share_link_def Let_def split: option.splits if_splits sum.splits)

lemma run_link_core:
  "prefix (map link_core (links (st_db s)))
          (map link_core (links (st_db (fst (run admin_ids evs s)))))"
proof (induction evs arbitrary: s)
  case Nil
  then show ?case by simp
next
  case (Cons e evs)
  obtain now ev where e: "e = (now, ev)" by (cases e)
  have "prefix (map link_core (links (st_db s)))
               (map link_core (links (st_db (fst (step admin_ids now ev s)))))"
    by (rule step_link_core)
  also have "prefix \<dots> (map link_core (links (st_db (fst (run admin_ids evs (fst (step admin_ids now ev s)))))))"
    by (rule Cons.IH)
  finally show ?case using e by (simp add: split_beta)
qed

lemma run_nth_core:
  assumes "i < length (links (st_db s))"
  shows "i < length (links (st_db (fst (run admin_ids evs s))))
       \<and> link_core (links (st_db (fst (run admin_ids evs s))) ! i) = link_core (links (st_db s) ! i)"
proof -
  from run_link_core [of s admin_ids evs] obtain zs where
    zs: "map link_core (links (st_db (fst (run admin_ids evs s)))) = map link_core (links (st_db s)) @ zs"
    by (auto simp: prefix_def)
  then have "length (links (st_db (fst (run admin_ids evs s)))) = length (links (st_db s)) + length zs"
    by (metis length_append length_map)
  with assms have len: "i < length (links (st_db (fst (run admin_ids evs s))))" by simp
  from zs assms have "map link_core (links (st_db (fst (run admin_ids evs s)))) ! i
                      = map link_core (links (st_db s)) ! i"
    by (simp add: nth_append)
  with len assms show ?thesis by simp
qed

lemma link_core_fields:
  assumes "link_core l' = link_core l"
  shows "l_code l' = l_code l" "l_downloads l' = l_downloads l"
    "l_max_downloads l' = l_max_downloads l" "l_expires_at l' = l_expires_at l"
    "l_file_id l' = l_file_id l" "l_id l' = l_id l"
proof -
  have "l_code (link_core l') = l_code (link_core l)"
    "l_downloads (link_core l') = l_downloads (link_core l)"
    "l_max_downloads (link_core l') = l_max_downloads (link_core l)"
    "l_expires_at (link_core l') = l_expires_at (link_core l)"
    "l_file_id (link_core l') = l_file_id (link_core l)"
    "l_id (link_core l') = l_id (link_core l)"
    using assms by simp_all
  then show "l_code l' = l_code l" "l_downloads l' = l_downloads l"
    "l_max_downloads l' = l_max_downloads l" "l_expires_at l' = l_expires_at l"
    "l_file_id l' = l_file_id l" "l_id l' = l_id l"
    by (simp_all add: link_core_def)
qed

lemma run_length: "length (snd (run admin_ids evs s)) = length evs"
  by (induction evs arbitrary: s) (auto simp: split_beta)

lemma run_start_reply:
  assumes "j < length evs" and "snd (evs ! j) = EvStart user args"
  shows "snd (run admin_ids evs s) ! j
         = Reply (Hello (str_or (tg_first_name user) (tg_username user))
                        (is_admin admin_ids (tg_id user)))"
  using assms
proof (induction evs arbitrary: j s)
  case Nil
  then show ?case by simp
next
  case (Cons e evs)
  obtain now ev where e: "e = (now, ev)" by (cases e)
  show ?case
  proof (cases j)
    case 0
    with Cons.prems e have "ev = EvStart user args" by simp
    with 0 e show ?thesis by (simp add: split_beta step_def cmd_start_def)
  next
    case (Suc i)
    with Cons.prems have "i < length evs" "snd (evs ! i) = EvStart user args" by simp_all
    from Cons.IH [OF this] Suc e show ?thesis by (simp add: split_beta)
  qed
qed

text \<open>
  C2, as amended. The link that \<^verbatim>\<open>create_share_link\<close> issues with a limit \<open>k\<close>, not
  negative, starts with no downloads, and no handler and no sweep of any run changes
  its counter, its limit or its code: the counter stays 0 and so never exceeds \<open>k\<close>.
  The start command resolves no link: every start command of the run is answered with
  the greeting.
\<close>

theorem downloads_stay_zero:
  assumes "create_share_link now rnd gid serial owner ttl (Some k) d = (st_db s, Inr (Some code))"
    and "0 \<le> k"
  shows "length (links d) < length (links (st_db (fst (run admin_ids evs s))))
       \<and> l_code (links (st_db (fst (run admin_ids evs s))) ! length (links d)) = code
       \<and> l_max_downloads (links (st_db (fst (run admin_ids evs s))) ! length (links d)) = Some k
       \<and> l_downloads (links (st_db (fst (run admin_ids evs s))) ! length (links d)) = 0
       \<and> l_downloads (links (st_db (fst (run admin_ids evs s))) ! length (links d)) \<le> k
       \<and> (\<forall>j < length evs. \<forall>user args. snd (evs ! j) = EvStart user args \<longrightarrow>
             snd (run admin_ids evs s) ! j
             = Reply (Hello (str_or (tg_first_name user) (tg_username user))
                            (is_admin admin_ids (tg_id user))))"
proof -
  let ?i = "length (links d)"
  from create_share_link_Some [OF assms(1)] obtain l where l: "links (st_db s) = links d @ [l]" "l_code l = code"
      "l_max_downloads l = Some k" "l_downloads l = 0"
    by blast
  then have i: "?i < length (links (st_db s))" and at: "links (st_db s) ! ?i = l" by simp_all
  from run_nth_core [OF i, of admin_ids evs] at
  have len: "?i < length (links (st_db (fst (run admin_ids evs s))))"
    and core: "link_core (links (st_db (fst (run admin_ids evs s))) ! ?i) = link_core l"
    by simp_all
  from link_core_fields [OF core] l assms(2) len run_start_reply [of _ evs _ _ admin_ids s]
  show ?thesis by simp
qed


lemma limited_link:
  "create_share_link 50 rnd1 1 1 101 None (Some 1) docs_db
   = (docs_db\<lparr>links_seq := 1,
               links := [\<lparr>l_id = 1, l_code = ''EAECAwQFRgeICQoLDA'', l_file_id = 1,
                           l_group_id = 1, l_owner_id = 101, l_expires_at = None,
                           l_max_downloads = Some 1, l_downloads = 0, l_created_at = 50,
                           l_active = True\<rparr>]\<rparr>,
      Inr (Some ''EAECAwQFRgeICQoLDA''))"
  by (simp add: create_share_link_def expires_at_of_def Let_def gen_code_rnd1 docs_db_def
      init_db_def)

theorem downloads_stay_zero_witness:
  "create_share_link 50 rnd1 1 1 101 None (Some 1) docs_db
     = (st_db limited_state, Inr (Some ''EAECAwQFRgeICQoLDA''))
   \<and> links docs_db = []
   \<and> map l_downloads (links (st_db (fst (run [] limited_events limited_state)))) = [0]
   \<and> map l_code (links (st_db (fst (run [] limited_events limited_state))))
       = [''EAECAwQFRgeICQoLDA'']
   \<and> snd (run [] limited_events limited_state)
       = [Reply (Hello (Some ''Bob'') False), Reply (FileSent 77 (Some ''report.pdf'')),
          Swept [], Reply (Hello (Some ''Bob'') False)]"
  using downloads_stay_zero [of 50 rnd1 1 1 101 None 1 docs_db limited_state
      "''EAECAwQFRgeICQoLDA''" "[]" limited_events]
  by (simp add: limited_state_def limited_link)
     (simp add: limited_events_def example_defs handler_defs callback_handler_def
        expiry_cycle_def expired_rows_def is_expired_def)

text \<open>
  C2, as stated, fails. The second link of the store is active, does not expire and
  is limited to one download. Three start commands with its code are all answered
  with the greeting, the second and the third too, where the claim has the answer
  that the link is exhausted; the links are as they were.
\<close>

theorem resolution_counterexample:
  "l_code (links (st_db share_state) ! 1) = ''BBECAwQFRgeICQoLDA''
   \<and> l_max_downloads (links (st_db share_state) ! 1) = Some 1
   \<and> l_expires_at (links (st_db share_state) ! 1) = None
   \<and> l_active (links (st_db share_state) ! 1)
   \<and> snd (run [] three_starts share_state)
       = [Reply (Hello (Some ''Bob'') False), Reply (Hello (Some ''Bob'') False),
          Reply (Hello (Some ''Bob'') False)]
   \<and> links (st_db (fst (run [] three_starts share_state))) = links (st_db share_state)"
  by (simp add: share_state_def three_starts_def share_db_def example_defs handler_defs)

text \<open>
  C3, as amended. For an active link whose expiry time is set and not after \<open>now\<close>,
  the start command answers with the greeting and leaves the links as they are, this
  one still active; the next sweep of the expiry worker makes it inactive.
\<close>

theorem expired_link_waits_for_sweep:
  assumes "l \<in> set (links d)" and "l_active l" and "l_expires_at l = Some e" and "e \<le> now"
    and "distinct (map l_id (links d))"
  shows "snd (cmd_start admin_ids now user args d)
           = Hello (str_or (tg_first_name user) (tg_username user)) (is_admin admin_ids (tg_id user))
       \<and> links (fst (cmd_start admin_ids now user args d)) = links d
       \<and> l\<lparr>l_active := False\<rparr> \<in> set (links (fst (expiry_cycle now (fst (cmd_start admin_ids now user args d)))))
       \<and> l \<notin> set (links (fst (expiry_cycle now (fst (cmd_start admin_ids now user args d)))))"
proof -
  let ?d1 = "fst (cmd_start admin_ids now user args d)"
  have ls: "links ?d1 = links d" by (simp add: cmd_start_def ensure_user_frame)
  with assms(5) have "distinct (map l_id (links ?d1))" by simp
  from expiry_cycle_links [OF this, of now] ls
  have after: "links (fst (expiry_cycle now ?d1))
       = map (\<lambda>l. if is_expired now l then l\<lparr>l_active := False\<rparr> else l) (links d)"
    by simp
  from assms(2,3,4) have ex: "is_expired now l" by (simp add: is_expired_def)
  with assms(1) have "l\<lparr>l_active := False\<rparr> \<in> set (links (fst (expiry_cycle now ?d1)))"
    unfolding after by force
  moreover have "l \<notin> set (links (fst (expiry_cycle now ?d1)))"
  proof
    assume "l \<in> set (links (fst (expiry_cycle now ?d1)))"
    then obtain x where x: "x \<in> set (links d)"
        "l = (if is_expired now x then x\<lparr>l_active := False\<rparr> else x)"
      unfolding after by auto
    show False
    proof (cases "is_expired now x")
      case True
      with x(2) have "\<not> l_active l" by simp
      with assms(2) show False by simp
    next
      case False
      with x(2) ex show False by simp
    qed
  qed
  ultimately show ?thesis using ls by (simp add: cmd_start_def)
qed

theorem expired_link_waits_for_sweep_witness:
  "links share_db ! 0 \<in> set (links share_db) \<and> l_active (links share_db ! 0)
   \<and> l_expires_at (links share_db ! 0) = Some 99 \<and> (99 :: int) \<le> 100
   \<and> distinct (map l_id (links share_db))
   \<and> links (fst (cmd_start [] 100 bob [''AAECAwQFRgeICQoLDA''] share_db)) = links share_db
   \<and> map l_active (links (fst (expiry_cycle 100
         (fst (cmd_start [] 100 bob [''AAECAwQFRgeICQoLDA''] share_db))))) = [False, True]"
  using expired_link_waits_for_sweep [of "links share_db ! 0" share_db 99 100 "[]" bob
      "[''AAECAwQFRgeICQoLDA'']"]
  by (simp add: share_db_def example_defs handler_defs expiry_cycle_def expired_rows_def
      is_expired_def deactivate_def)

text \<open>
  C3, as stated, fails. The first link of the store expired at 99, has no downloads
  and a limit of one. The start command with its code at 100 is answered with the
  greeting, and the link is still active afterwards.
\<close>

theorem lazy_expiry_counterexample:
  "l_code (links share_db ! 0) = ''AAECAwQFRgeICQoLDA''
   \<and> l_expires_at (links share_db ! 0) = Some 99
   \<and> l_downloads (links share_db ! 0) = 0
   \<and> l_max_downloads (links share_db ! 0) = Some 1
   \<and> snd (cmd_start [] 100 bob [''AAECAwQFRgeICQoLDA''] share_db) = Hello (Some ''Bob'') False
   \<and> l_active (links (fst (cmd_start [] 100 bob [''AAECAwQFRgeICQoLDA''] share_db)) ! 0)"
  by (simp add: share_db_def example_defs handler_defs)

subsection \<open>The keys of the stores that runs reach\<close>

text \<open>
  The theorems above that need the keys of the files to be non-zero, or the keys of
  the links to be distinct, hold in every store that a run reaches from the empty one.
\<close>

lemma ids_ok_mono: "ids_ok ids seq \<Longrightarrow> seq \<le> seq' \<Longrightarrow> ids_ok ids seq'"
  by (auto simp: ids_ok_def)

lemma ids_ok_snoc: "ids_ok ids seq \<Longrightarrow> 0 \<le> seq \<Longrightarrow> ids_ok (ids @ [seq + 1]) (seq + 1)"
  by (auto simp: ids_ok_def)

lemma ids_ok_filter: "ids_ok (map f xs) seq \<Longrightarrow> ids_ok (map f (filter P xs)) seq"
  by (auto simp: ids_ok_def distinct_map_filter)

lemma ids_ok_nonneg: "ids_ok ids seq \<Longrightarrow> ids \<noteq> [] \<Longrightarrow> 0 \<le> seq"
  by (cases ids) (auto simp: ids_ok_def)


lemma wf_db_init: "wf_db init_db"
  by (simp add: wf_db_def ids_ok_def init_db_def)

lemma wf_db_cong:
  "files d' = files d \<Longrightarrow> files_seq d' = files_seq d \<Longrightarrow> links d' = links d
   \<Longrightarrow> links_seq d' = links_seq d \<Longrightarrow> wf_db d' = wf_db d"
  by (simp add: wf_db_def)

lemma wf_db_ensure_user: "wf_db (ensure_user now user d) = wf_db d"
  by (rule wf_db_cong) (simp_all add: ensure_user_frame)

lemma wf_db_upsert_stats: "wf_db (upsert_stats now uid a b d) = wf_db d"
  by (rule wf_db_cong) (simp_all add: upsert_stats_frame)

lemma wf_db_add_to_group: "wf_db (add_to_group gid n d) = wf_db d"
  by (rule wf_db_cong) (simp_all add: add_to_group_frame)

lemma wf_db_files_seq: "wf_db d \<Longrightarrow> wf_db (d\<lparr>files_seq := files_seq d + 1\<rparr>)"
  by (auto simp: wf_db_def intro: ids_ok_mono)

lemma wf_db_links_seq: "wf_db d \<Longrightarrow> wf_db (d\<lparr>links_seq := links_seq d + 1\<rparr>)"
  by (auto simp: wf_db_def intro: ids_ok_mono)

lemma wf_db_insert_file:
  "wf_db d \<Longrightarrow> insert_file now gid serial code fname fsize sid uid d = Inr d1 \<Longrightarrow> wf_db d1"
  by (auto simp: insert_file_def wf_db_def split: if_splits intro: ids_ok_snoc)

lemma wf_db_handle_upload:
  assumes "wf_db d"
  shows "wf_db (fst (handle_upload now user msg fwd rnd (d, ud)))"
proof -
  have e: "wf_db (ensure_user now user d)" using assms by (simp add: wf_db_ensure_user)
  show ?thesis
    by (auto simp: handle_upload_def Let_def e wf_db_upsert_stats wf_db_add_to_group
        wf_db_files_seq wf_db_insert_file [OF e]
        split: option.splits forward_result.splits sum.splits prod.splits)
qed

lemma wf_db_message_router:
  "wf_db d \<Longrightarrow> wf_db (fst (message_router admin_ids now user tm (d, ud)))"
  by (auto simp: message_router_def route_text_def choose_group_ui_def Let_def wf_db_ensure_user
      split: text_msg.splits button.splits)

lemma wf_db_create_share_link:
  "wf_db d \<Longrightarrow> wf_db (fst (create_share_link now rnd gid serial owner ttl maxd d))"
  by (auto simp: create_share_link_def Let_def wf_db_links_seq wf_db_def
      split: option.splits sum.splits intro: ids_ok_snoc ids_ok_mono)

lemma wf_db_delete_file: "wf_db d \<Longrightarrow> wf_db (delete_file fid gid d)"
  by (auto simp: delete_file_def wf_db_def intro: ids_ok_filter)

lemma wf_db_callback_handler:
  assumes "wf_db d"
  shows "wf_db (fst (callback_handler admin_ids now uid cb rnd c dl (d, ud)))"
proof (cases cb)
  case (ShareC gid serial secs)
  from wf_db_create_share_link [OF assms, of now rnd gid serial uid "if 0 < secs then Some secs else None" None]
  show ?thesis using ShareC
    by (auto simp: callback_handler_def split: prod.splits sum.splits option.splits)
qed (insert assms, auto simp: callback_handler_def wf_db_upsert_stats wf_db_delete_file
       split: option.splits)

lemma wf_db_expiry_cycle:
  assumes "wf_db d"
  shows "wf_db (fst (expiry_cycle now d))"
proof -
  have "map l_id (links (fst (expiry_cycle now d))) = map l_id (links d)"
    by (simp add: expiry_cycle_def Let_def fold_deactivate_links o_def if_distrib cong: if_cong)
  with assms show ?thesis
    by (simp add: wf_db_def expiry_cycle_def Let_def fold_deactivate_frame)
qed

lemma wf_db_step: "wf_db (st_db s) \<Longrightarrow> wf_db (st_db (fst (step admin_ids now ev s)))"
  by (cases ev)
     (simp_all add: step_def split_beta cmd_start_def wf_db_ensure_user wf_db_message_router
        wf_db_handle_upload wf_db_callback_handler wf_db_expiry_cycle)

lemma wf_db_run: "wf_db (st_db s) \<Longrightarrow> wf_db (st_db (fst (run admin_ids evs s)))"
proof (induction evs arbitrary: s)
  case Nil
  then show ?case by simp
next
  case (Cons e evs)
  obtain now ev where e: "e = (now, ev)" by (cases e)
  from Cons.prems have "wf_db (st_db (fst (step admin_ids now ev s)))" by (rule wf_db_step)
  then have "wf_db (st_db (fst (run admin_ids evs (fst (step admin_ids now ev s)))))"
    by (rule Cons.IH)
  with e show ?case by (simp add: split_beta)
qed

lemma wf_db_keys:
  assumes "wf_db d"
  shows "\<forall>f \<in> set (files d). f_id f \<noteq> 0" and "distinct (map l_id (links d))"
  using assms by (auto simp: wf_db_def ids_ok_def)

lemma reachable_keys:
  "\<forall>f \<in> set (files (st_db (fst (run admin_ids evs init_state)))). f_id f \<noteq> 0"
  "distinct (map l_id (links (st_db (fst (run admin_ids evs init_state)))))"
proof -
  have "wf_db (st_db init_state)" by (simp add: init_state_def wf_db_init)
  then have "wf_db (st_db (fst (run admin_ids evs init_state)))" by (rule wf_db_run)
  then show "\<forall>f \<in> set (files (st_db (fst (run admin_ids evs init_state)))). f_id f \<noteq> 0"
    and "distinct (map l_id (links (st_db (fst (run admin_ids evs init_state)))))"
    by (rule wf_db_keys)+
qed

end
